theory Spec2Isabelle
  imports Complex_Main "HOL-Library.Sublist" "HOL-Library.Char_ord" "HOL-Library.List_Lexorder"
begin

section \<open>JavaScript strings\<close>

text \<open>
  A JavaScript string is modelled as a \<^typ>\<open>string\<close>: the list of its code units, for the
  code units below 256. The white space of \<open>String.prototype.trim\<close> and of the
  regular-expression class \<open>\s\<close> in that range is TAB, LF, VT, FF, CR, SPACE and NBSP.
\<close>

definition js_space :: "char \<Rightarrow> bool" where
  "js_space c = (c \<in> set [CHR 0x09, CHR 0x0A, CHR 0x0B, CHR 0x0C, CHR 0x0D, CHR 0x20, CHR 0xA0])"

definition trim :: "string \<Rightarrow> string" where
  "trim s = rev (dropWhile js_space (rev (dropWhile js_space s)))"

definition is_digit :: "char \<Rightarrow> bool" where
  "is_digit c = (let n = (of_char c :: nat) in 48 \<le> n \<and> n \<le> 57)"

definition is_upper :: "char \<Rightarrow> bool" where
  "is_upper c = (let n = (of_char c :: nat) in 65 \<le> n \<and> n \<le> 90)"

definition is_lower :: "char \<Rightarrow> bool" where
  "is_lower c = (let n = (of_char c :: nat) in 97 \<le> n \<and> n \<le> 122)"

text \<open>The character class \<open>[A-Za-z0-9]\<close>.\<close>

definition is_alnum :: "char \<Rightarrow> bool" where
  "is_alnum c = (is_upper c \<or> is_lower c \<or> is_digit c)"

text \<open>The character class \<open>[A-Za-z0-9_.-]\<close>.\<close>

definition is_name_char :: "char \<Rightarrow> bool" where
  "is_name_char c = (is_alnum c \<or> c = CHR ''_'' \<or> c = CHR ''.'' \<or> c = CHR ''-'')"

text \<open>The character class \<open>[a-f0-9]\<close> under the flag \<open>i\<close>.\<close>

definition is_hex :: "char \<Rightarrow> bool" where
  "is_hex c = (is_digit c \<or> (let n = (of_char c :: nat) in (65 \<le> n \<and> n \<le> 70) \<or> (97 \<le> n \<and> n \<le> 102)))"

section \<open>Error codes\<close>

text \<open>
  The \<open>code\<close> property of the errors thrown by the orchestrator, the state store and the
  registry client. \<open>RUNTIME_ERROR\<close> stands for an error raised by the container runtime or
  the file system, with its message.
\<close>

datatype err_code =
    INVALID_TAG
  | TAG_NOT_ALLOWED
  | OP_IN_PROGRESS
  | INVALID_CONTAINER_ID
  | INVALID_DATA_LOSS_ACK
  | INVALID_RETENTION_POLICY
  | INVALID_PORT_PREFERENCES
  | INVALID_INPUT
  | CREATE_FAILED
  | UI_NOT_READY
  | NOT_INSTALLED
  | NOT_YET_AVAILABLE
  | NO_RELEASES
  | REGISTRY_PAGINATION_ERROR
  | REGISTRY_RATE_LIMIT
  | REGISTRY_AUTH_FAILED
  | REGISTRY_ERROR
  | RUNTIME_UNAVAILABLE
  | RUNTIME_ERROR string

section \<open>Tag allow-list (service\_versions/index.js)\<close>

definition CANONICAL_LOCAL_TAGS :: "string list" where
  "CANONICAL_LOCAL_TAGS = [''local'', ''development'', ''main'']"

definition isSafeTag :: "string \<Rightarrow> bool" where
  "isSafeTag tag =
     (let t = trim tag in
      if t = [] then False
      else if length t > 128 then False
      else if CHR '':'' \<in> set t \<or> CHR ''/'' \<in> set t \<or> list_ex js_space t then False
      else is_alnum (hd t) \<and> list_all is_name_char (tl t))"

text \<open>
  \<open>semver.valid\<close> belongs to the external package \<open>semver\<close>; its verdict on a string
  (whether the result is truthy) is the parameter \<open>sv\<close>.
\<close>

definition isSemverReleaseTag :: "(string \<Rightarrow> bool) \<Rightarrow> string \<Rightarrow> bool" where
  "isSemverReleaseTag sv tag =
     (let t = trim tag in
      if \<not> prefix ''v'' t then False else sv (drop 1 t))"

definition isTestingTag :: "string \<Rightarrow> bool" where
  "isTestingTag tag = (trim tag = ''testing'')"

definition isCanonicalLocalTag :: "string \<Rightarrow> bool" where
  "isCanonicalLocalTag tag = (trim tag \<in> set CANONICAL_LOCAL_TAGS)"

definition assertTagAllowedForInstall :: "(string \<Rightarrow> bool) \<Rightarrow> string \<Rightarrow> err_code + string" where
  "assertTagAllowedForInstall sv tag =
     (let t = trim tag in
      if \<not> isSafeTag t then Inl INVALID_TAG
      else if \<not> isTestingTag t \<and> \<not> isSemverReleaseTag sv t \<and> \<not> isCanonicalLocalTag t
        then Inl TAG_NOT_ALLOWED
      else Inr t)"

definition assertTagAllowedForActivate :: "string \<Rightarrow> err_code + string" where
  "assertTagAllowedForActivate tag =
     (let t = trim tag in
      if \<not> isSafeTag t then Inl INVALID_TAG else Inr t)"

definition assertContainerId :: "string \<Rightarrow> err_code + string" where
  "assertContainerId val =
     (let v = trim val in
      if v = [] \<or> length v > 128 then Inl INVALID_CONTAINER_ID
      else if \<not> list_all is_hex v then Inl INVALID_CONTAINER_ID
      else Inr v)"

definition assertDataLossAck :: "string \<Rightarrow> err_code + string" where
  "assertDataLossAck val =
     (let v = trim val in
      if v \<noteq> ''has_backup'' \<and> v \<noteq> ''proceed_without_backup'' then Inl INVALID_DATA_LOSS_ACK
      else Inr v)"

text \<open>
  A stand-in for \<open>semver.valid\<close> on the plain \<open>MAJOR.MINOR.PATCH\<close> core of the grammar:
  three dot-separated decimal numbers without leading zeros. It serves as a concrete
  instance of the parameter \<open>sv\<close>.
\<close>

definition numeric_id :: "string \<Rightarrow> bool" where
  "numeric_id s = (s \<noteq> [] \<and> list_all is_digit s \<and> (length s = 1 \<or> hd s \<noteq> CHR ''0''))"

fun split_on :: "char \<Rightarrow> string \<Rightarrow> string list" where
  "split_on d [] = [[]]"
| "split_on d (c # cs) =
     (if c = d then [] # split_on d cs
      else (case split_on d cs of [] \<Rightarrow> [[c]] | p # ps \<Rightarrow> (c # p) # ps))"

definition semver_core :: "string \<Rightarrow> bool" where
  "semver_core s = (let ps = split_on (CHR ''.'') s in length ps = 3 \<and> list_all numeric_id ps)"

section \<open>The operation state machine (service\_versions/index.js)\<close>

datatype op_status = Running | Completed | Failed | Canceled

datatype op_type = Install | Update | Activate | Rollback | Start | Stop | Delete_instance

record operation =
  opId :: string
  optype :: op_type
  status :: op_status
  startedAt :: string
  finishedAt :: "string option"
  targetVersionTag :: "string option"
  progress :: "real option"
  downloadProgress :: "real option"
  extractProgress :: "real option"
  message :: "string option"
  error :: "string option"

text \<open>
  The module state: \<open>_currentOperation\<close>, and the snapshots handed to
  \<open>events.emit('progress', ...)\<close>, the newest first.
\<close>

record orch =
  currentOperation :: "operation option"
  emitted :: "operation list"

text \<open>What an operation start reads from its environment: the fresh id and \<open>nowIso()\<close>.\<close>

record stamp =
  fresh_id :: string
  now_iso :: string

definition emit_progress :: "orch \<Rightarrow> orch" where
  "emit_progress s =
     (case currentOperation s of
        None \<Rightarrow> s
      | Some c \<Rightarrow> s\<lparr>emitted := c # emitted s\<rparr>)"

definition requireNoRunningOperation :: "orch \<Rightarrow> err_code + unit" where
  "requireNoRunningOperation s =
     (case currentOperation s of
        Some c \<Rightarrow> if status c = Running then Inl OP_IN_PROGRESS else Inr ()
      | None \<Rightarrow> Inr ())"

definition beginOperation :: "op_type \<Rightarrow> string option \<Rightarrow> stamp \<Rightarrow> orch \<Rightarrow> err_code + string \<times> orch" where
  "beginOperation ty tgt st s =
     (case requireNoRunningOperation s of
        Inl e \<Rightarrow> Inl e
      | Inr _ \<Rightarrow>
          (let c = \<lparr>opId = fresh_id st, optype = ty, status = Running, startedAt = now_iso st,
                    finishedAt = None,
                    targetVersionTag = (if tgt = Some [] then None else tgt),
                    progress = None, downloadProgress = None, extractProgress = None,
                    message = None, error = None\<rparr>
           in Inr (fresh_id st, emit_progress (s\<lparr>currentOperation := Some c\<rparr>))))"

text \<open>
  The patches passed to \<open>updateOperationProgress\<close> set some of four fields. A field that
  the patch does not mention is \<open>None\<close>; a field set to \<open>null\<close> is \<open>Some None\<close>.
\<close>

record patch =
  p_message :: "string option option"
  p_progress :: "real option option"
  p_downloadProgress :: "real option option"
  p_extractProgress :: "real option option"

definition apply_patch :: "patch \<Rightarrow> operation \<Rightarrow> operation" where
  "apply_patch p c =
     c\<lparr>message := (case p_message p of None \<Rightarrow> message c | Some v \<Rightarrow> v),
       progress := (case p_progress p of None \<Rightarrow> progress c | Some v \<Rightarrow> v),
       downloadProgress := (case p_downloadProgress p of None \<Rightarrow> downloadProgress c | Some v \<Rightarrow> v),
       extractProgress := (case p_extractProgress p of None \<Rightarrow> extractProgress c | Some v \<Rightarrow> v)\<rparr>"

definition updateOperationProgress :: "patch \<Rightarrow> orch \<Rightarrow> orch" where
  "updateOperationProgress p s =
     (case currentOperation s of
        None \<Rightarrow> s
      | Some c \<Rightarrow> emit_progress (s\<lparr>currentOperation := Some (apply_patch p c)\<rparr>))"

text \<open>\<open>errorMessage || null\<close>: the empty string becomes \<open>null\<close>.\<close>

definition finishOperation :: "op_status \<Rightarrow> string option \<Rightarrow> string \<Rightarrow> orch \<Rightarrow> orch" where
  "finishOperation st errorMessage now s =
     (case currentOperation s of
        None \<Rightarrow> s
      | Some c \<Rightarrow>
          emit_progress (s\<lparr>currentOperation :=
            Some (c\<lparr>status := st, finishedAt := Some now,
                    error := (if errorMessage = Some [] then None else errorMessage)\<rparr>)\<rparr>))"

text \<open>
  The assignment \<open>_currentOperation = { ..._currentOperation, targetVersionTag }\<close> of
  \<open>updateToLatest\<close> and \<open>activateRetainedInstance\<close>, followed by its emit. The spread of
  \<open>null\<close> is the empty object, so the assignment also works without a current operation;
  the bodies reach it only after \<open>beginOperation\<close>, and the model leaves the state alone
  otherwise.
\<close>

definition setTargetVersionTag :: "string option \<Rightarrow> orch \<Rightarrow> orch" where
  "setTargetVersionTag tgt s =
     (case currentOperation s of
        None \<Rightarrow> s
      | Some c \<Rightarrow> emit_progress (s\<lparr>currentOperation := Some (c\<lparr>targetVersionTag := tgt\<rparr>)\<rparr>))"

subsection \<open>The synchronous prefix of the operation-starting calls\<close>

definition bind_err :: "err_code + 'a \<Rightarrow> ('a \<Rightarrow> err_code + 'b) \<Rightarrow> err_code + 'b" where
  "bind_err r f = (case r of Inl e \<Rightarrow> Inl e | Inr v \<Rightarrow> f v)"

definition installOrSync :: "(string \<Rightarrow> bool) \<Rightarrow> string \<Rightarrow> stamp \<Rightarrow> orch \<Rightarrow> err_code + string \<times> orch" where
  "installOrSync sv tag st s =
     bind_err (assertTagAllowedForInstall sv tag) (\<lambda>t.
     bind_err (requireNoRunningOperation s) (\<lambda>_.
     beginOperation Install (Some t) st s))"

definition stopActiveInstance :: "stamp \<Rightarrow> orch \<Rightarrow> err_code + string \<times> orch" where
  "stopActiveInstance st s =
     bind_err (requireNoRunningOperation s) (\<lambda>_. beginOperation Stop None st s)"

definition startActiveInstance :: "stamp \<Rightarrow> orch \<Rightarrow> err_code + string \<times> orch" where
  "startActiveInstance st s =
     bind_err (requireNoRunningOperation s) (\<lambda>_. beginOperation Start None st s)"

definition deleteRetainedInstance :: "string \<Rightarrow> stamp \<Rightarrow> orch \<Rightarrow> err_code + string \<times> orch" where
  "deleteRetainedInstance containerId st s =
     bind_err (assertContainerId containerId) (\<lambda>_.
     bind_err (requireNoRunningOperation s) (\<lambda>_.
     beginOperation Delete_instance None st s))"

definition updateToLatest :: "string \<Rightarrow> stamp \<Rightarrow> orch \<Rightarrow> err_code + string \<times> orch" where
  "updateToLatest dataLossAck st s =
     bind_err (assertDataLossAck dataLossAck) (\<lambda>_.
     bind_err (requireNoRunningOperation s) (\<lambda>_.
     beginOperation Update None st s))"

definition activateRetainedInstance :: "string \<Rightarrow> string \<Rightarrow> stamp \<Rightarrow> orch \<Rightarrow> err_code + string \<times> orch" where
  "activateRetainedInstance containerId dataLossAck st s =
     bind_err (assertDataLossAck dataLossAck) (\<lambda>_.
     bind_err (assertContainerId containerId) (\<lambda>_.
     bind_err (requireNoRunningOperation s) (\<lambda>_.
     beginOperation Rollback None st s)))"

definition activateVersion :: "string \<Rightarrow> string \<Rightarrow> stamp \<Rightarrow> orch \<Rightarrow> err_code + string \<times> orch" where
  "activateVersion tag dataLossAck st s =
     bind_err (assertTagAllowedForActivate tag) (\<lambda>t.
     bind_err (assertDataLossAck dataLossAck) (\<lambda>_.
     bind_err (requireNoRunningOperation s) (\<lambda>_.
     beginOperation Activate (Some t) st s)))"

text \<open>The seven operation-starting calls, with their arguments.\<close>

datatype call =
    Call_install string
  | Call_stop
  | Call_start
  | Call_delete_instance string
  | Call_update string
  | Call_rollback string string
  | Call_activate string string

fun start_call :: "(string \<Rightarrow> bool) \<Rightarrow> call \<Rightarrow> stamp \<Rightarrow> orch \<Rightarrow> err_code + string \<times> orch" where
  "start_call sv (Call_install tag) st s = installOrSync sv tag st s"
| "start_call sv Call_stop st s = stopActiveInstance st s"
| "start_call sv Call_start st s = startActiveInstance st s"
| "start_call sv (Call_delete_instance cid) st s = deleteRetainedInstance cid st s"
| "start_call sv (Call_update ack) st s = updateToLatest ack st s"
| "start_call sv (Call_rollback cid ack) st s = activateRetainedInstance cid ack st s"
| "start_call sv (Call_activate tag ack) st s = activateVersion tag ack st s"

text \<open>The module state after a call: a call that throws has changed nothing.\<close>

definition state_after :: "err_code + string \<times> orch \<Rightarrow> orch \<Rightarrow> orch" where
  "state_after r s = (case r of Inl _ \<Rightarrow> s | Inr (_, s') \<Rightarrow> s')"

text \<open>
  Everything that changes the module state: the calls, and what the body of the running
  operation does to its own record. \<open>finishOperation\<close> is only ever called with one of the
  three terminal statuses.
\<close>

datatype terminal = T_completed | T_failed | T_canceled

fun terminal_status :: "terminal \<Rightarrow> op_status" where
  "terminal_status T_completed = Completed"
| "terminal_status T_failed = Failed"
| "terminal_status T_canceled = Canceled"

datatype action =
    Do_call call stamp
  | Do_update patch
  | Do_set_target "string option"
  | Do_finish terminal "string option" string

fun step :: "(string \<Rightarrow> bool) \<Rightarrow> orch \<Rightarrow> action \<Rightarrow> orch" where
  "step sv s (Do_call c st) = state_after (start_call sv c st s) s"
| "step sv s (Do_update p) = updateOperationProgress p s"
| "step sv s (Do_set_target tgt) = setTargetVersionTag tgt s"
| "step sv s (Do_finish t msg now) = finishOperation (terminal_status t) msg now s"

definition initial :: orch where
  "initial = \<lparr>currentOperation = None, emitted = []\<rparr>"

definition run :: "(string \<Rightarrow> bool) \<Rightarrow> action list \<Rightarrow> orch" where
  "run sv acts = foldl (step sv) initial acts"

text \<open>
  What an observer of the progress events knows: the newest snapshot of each operation
  id, and the ids whose newest snapshot is \<open>running\<close>.
\<close>

fun latest :: "operation list \<Rightarrow> string \<Rightarrow> operation option" where
  "latest [] i = None"
| "latest (c # cs) i = (if opId c = i then Some c else latest cs i)"

definition is_running_id :: "operation list \<Rightarrow> string \<Rightarrow> bool" where
  "is_running_id evs i = (case latest evs i of None \<Rightarrow> False | Some c \<Rightarrow> status c = Running)"

definition running_ids :: "operation list \<Rightarrow> string list" where
  "running_ids evs = filter (is_running_id evs) (remdups (map opId evs))"

text \<open>
  The invariant behind the single-flight rule: an operation id whose newest emitted
  snapshot is \<open>running\<close> is the current operation, with exactly that snapshot.
\<close>

definition single_flight_inv :: "orch \<Rightarrow> bool" where
  "single_flight_inv s =
     (\<forall>i c. latest (emitted s) i = Some c \<and> status c = Running \<longrightarrow> currentOperation s = Some c)"

section \<open>Numbers and values of JavaScript\<close>

text \<open>
  A number is finite, \<open>NaN\<close> or one of the two infinities; finite numbers are modelled
  by reals, so rounding of the double arithmetic is not part of the model. A value that
  crosses the IPC boundary is \<open>undefined\<close>, \<open>null\<close>, a boolean, a number, a string or an
  object. \<open>Number(v)\<close> on a string is the built-in string-to-number parser, the parameter
  \<open>sn\<close>; an object carries the number that \<open>Number\<close> makes of it.
\<close>

datatype jsnum = Finite real | NaN | PosInf | NegInf

datatype jsval = JUndefined | JNull | JBool bool | JNum jsnum | JStr string | JObject jsnum

fun to_number :: "(string \<Rightarrow> jsnum) \<Rightarrow> jsval \<Rightarrow> jsnum" where
  "to_number sn JUndefined = NaN"
| "to_number sn JNull = Finite 0"
| "to_number sn (JBool b) = Finite (if b then 1 else 0)"
| "to_number sn (JNum n) = n"
| "to_number sn (JStr s) = sn s"
| "to_number sn (JObject n) = n"

fun isFinite :: "jsnum \<Rightarrow> bool" where
  "isFinite (Finite x) = True"
| "isFinite _ = False"

fun the_real :: "jsnum \<Rightarrow> real" where
  "the_real (Finite x) = x"
| "the_real _ = 0"

section \<open>The persistent state store (service\_versions/state\_store.js)\<close>

record retention_policy =
  keepCount :: int

record port_preferences =
  ui :: int
  ssh :: int

text \<open>
  The object that \<open>JSON.parse\<close> makes of \<open>state.json\<close>: the fields the store writes.
\<close>

record state_json =
  retentionPolicy :: "retention_policy option"
  portPreferences :: "port_preferences option"
  updatedAt :: "string option"

text \<open>
  The file \<open>state.json\<close> as \<open>readJson\<close> meets it: absent (\<open>readFile\<close> fails with
  \<open>ENOENT\<close>), holding JSON, or unreadable (\<open>readFile\<close> fails with another error, or
  \<open>JSON.parse\<close> throws), with the error that is thrown.
\<close>

datatype state_file = Absent | Content state_json | Unreadable err_code

text \<open>
  What the file system does with a write is up to the environment: \<open>mkdir\<close> and
  \<open>writeFile\<close> succeed, or one of them throws, leaving some file behind.
\<close>

datatype write_outcome = Write_ok | Write_fails err_code state_file

definition empty_state :: state_json where
  "empty_state = \<lparr>retentionPolicy = None, portPreferences = None, updatedAt = None\<rparr>"

text \<open>\<open>readJson(stateFile(), {})\<close>: only \<open>ENOENT\<close> gives the fallback, any other error is rethrown.\<close>

definition readJson :: "state_file \<Rightarrow> err_code + state_json" where
  "readJson f =
     (case f of
        Absent \<Rightarrow> Inr empty_state
      | Content j \<Rightarrow> Inr j
      | Unreadable e \<Rightarrow> Inl e)"

definition writeJson :: "write_outcome \<Rightarrow> state_json \<Rightarrow> state_file \<Rightarrow> (err_code + unit) \<times> state_file" where
  "writeJson w v f =
     (case w of
        Write_ok \<Rightarrow> (Inr (), Content v)
      | Write_fails e f' \<Rightarrow> (Inl e, f'))"

definition clampKeepCount :: "real \<Rightarrow> int" where
  "clampKeepCount x = max 0 (min 20 \<lfloor>x\<rfloor>)"

text \<open>\<open>writeRetentionPolicy\<close>, given the \<open>keepCount\<close> property of its argument.\<close>

definition writeRetentionPolicy :: "(string \<Rightarrow> jsnum) \<Rightarrow> jsval \<Rightarrow> string \<Rightarrow> write_outcome \<Rightarrow> state_file \<Rightarrow> (err_code + retention_policy) \<times> state_file" where
  "writeRetentionPolicy sn kc now w f =
     (let k = (if isFinite (to_number sn kc) then the_real (to_number sn kc) else 1);
          policy = \<lparr>keepCount = clampKeepCount k\<rparr>
      in case readJson f of
           Inl e \<Rightarrow> (Inl e, f)
         | Inr state \<Rightarrow>
             (case writeJson w (state\<lparr>retentionPolicy := Some policy, updatedAt := Some now\<rparr>) f of
                (Inl e, f') \<Rightarrow> (Inl e, f')
              | (Inr _, f') \<Rightarrow> (Inr policy, f')))"

definition DEFAULT_PORT_PREFERENCES :: port_preferences where
  "DEFAULT_PORT_PREFERENCES = \<lparr>ui = 8880, ssh = 55022\<rparr>"

definition normalizePort :: "(string \<Rightarrow> jsnum) \<Rightarrow> jsval \<Rightarrow> int \<Rightarrow> int" where
  "normalizePort sn v fallback =
     (let n = to_number sn v in
      if \<not> isFinite n then fallback
      else let p = \<lfloor>the_real n\<rfloor> in
        if p \<le> 0 \<or> p > 65535 then fallback else p)"

definition isDistinctPorts :: "port_preferences \<Rightarrow> bool" where
  "isDistinctPorts prefs = (ui prefs \<noteq> ssh prefs)"

text \<open>
  \<open>writePortPreferences\<close>, given the \<open>ui\<close> and \<open>ssh\<close> properties of its argument (both
  \<open>undefined\<close> when the argument is not an object).
\<close>

definition writePortPreferences :: "(string \<Rightarrow> jsnum) \<Rightarrow> jsval \<Rightarrow> jsval \<Rightarrow> string \<Rightarrow> write_outcome \<Rightarrow> state_file \<Rightarrow> (err_code + port_preferences) \<times> state_file" where
  "writePortPreferences sn ui_in ssh_in now w f =
     (let prefs = \<lparr>ui = normalizePort sn ui_in (ui DEFAULT_PORT_PREFERENCES),
                   ssh = normalizePort sn ssh_in (ssh DEFAULT_PORT_PREFERENCES)\<rparr>
      in if \<not> isDistinctPorts prefs then (Inl INVALID_PORT_PREFERENCES, f)
         else case readJson f of
                Inl e \<Rightarrow> (Inl e, f)
              | Inr state \<Rightarrow>
                  (case writeJson w (state\<lparr>portPreferences := Some prefs, updatedAt := Some now\<rparr>) f of
                     (Inl e, f') \<Rightarrow> (Inl e, f')
                   | (Inr _, f') \<Rightarrow> (Inr prefs, f')))"

subsection \<open>The policy and preference calls of the orchestrator (service\_versions/index.js)\<close>

definition assertKeepCount :: "(string \<Rightarrow> jsnum) \<Rightarrow> jsval \<Rightarrow> err_code + int" where
  "assertKeepCount sn v =
     (let n = to_number sn v in
      if \<not> isFinite n then Inl INVALID_RETENTION_POLICY
      else Inr (clampKeepCount (the_real n)))"

text \<open>
  Both calls end with \<open>refreshServiceVersions\<close>, which rebuilds the derived state from
  the container runtime and throws when that is not available. Its outcome is the
  parameter \<open>refresh\<close>: \<open>None\<close> when it returns, the error when it throws.
\<close>

definition setRetentionPolicy :: "(string \<Rightarrow> jsnum) \<Rightarrow> err_code option \<Rightarrow> string \<Rightarrow> write_outcome \<Rightarrow> jsval \<Rightarrow> orch \<Rightarrow> state_file \<Rightarrow> (err_code + retention_policy) \<times> state_file" where
  "setRetentionPolicy sn refresh now w v s f =
     (case requireNoRunningOperation s of
        Inl e \<Rightarrow> (Inl e, f)
      | Inr _ \<Rightarrow>
          (case assertKeepCount sn v of
             Inl e \<Rightarrow> (Inl e, f)
           | Inr kc \<Rightarrow>
               (case writeRetentionPolicy sn (JNum (Finite (of_int kc))) now w f of
                  (Inl e, f') \<Rightarrow> (Inl e, f')
                | (Inr policy, f') \<Rightarrow>
                    (case refresh of
                       Some e \<Rightarrow> (Inl e, f')
                     | None \<Rightarrow> (Inr policy, f')))))"

definition setPortPreferences :: "(string \<Rightarrow> jsnum) \<Rightarrow> err_code option \<Rightarrow> string \<Rightarrow> write_outcome \<Rightarrow> jsval \<Rightarrow> jsval \<Rightarrow> orch \<Rightarrow> state_file \<Rightarrow> (err_code + port_preferences) \<times> state_file" where
  "setPortPreferences sn refresh now w ui_in ssh_in s f =
     (case requireNoRunningOperation s of
        Inl e \<Rightarrow> (Inl e, f)
      | Inr _ \<Rightarrow>
          (case writePortPreferences sn ui_in ssh_in now w f of
             (Inl e, f') \<Rightarrow> (Inl e, f')
           | (Inr prefs, f') \<Rightarrow>
               (case refresh of
                  Some e \<Rightarrow> (Inl e, f')
                | None \<Rightarrow> (Inr prefs, f'))))"

text \<open>A module state in which an install of \<open>testing\<close> is running.\<close>

definition busy :: orch where
  "busy = \<lparr>currentOperation = Some \<lparr>opId = ''op_1'', optype = Install, status = Running,
              startedAt = ''2024-01-01T00:00:00.000Z'', finishedAt = None,
              targetVersionTag = Some ''testing'', progress = None, downloadProgress = None,
              extractProgress = None, message = None, error = None\<rparr>,
            emitted = []\<rparr>"


section \<open>Tag listing of the registry client (docker/impl/DockerHubRegistry.mjs)\<close>

record rate_limit =
  rl_limit :: "string option"
  rl_remaining :: "string option"
  rl_reset :: "string option"
  rl_retryAfter :: "string option"

text \<open>
  What \<open>listTags\<close> reads from a response: the HTTP status, \<open>extractRateLimit\<close> of the
  headers, the \<open>tags\<close> array of the JSON body (\<open>None\<close> when \<open>res.json()\<close> throws, the
  empty list when the body has no array) and the resolved \<open>rel="next"\<close> link,
  \<open>resolveLinkUrl(parseLinkNext(headers))\<close>.
\<close>

record response =
  res_status :: nat
  res_rateLimit :: "rate_limit option"
  res_tags :: "string list option"
  res_next :: "string option"

definition res_ok :: "response \<Rightarrow> bool" where
  "res_ok r = (200 \<le> res_status r \<and> res_status r \<le> 299)"

text \<open>
  The registry and the token service, as the client sees them. Answers may change from
  one request to the next, so both take the number of requests made before: \<open>get_token\<close>
  also takes \<open>forceRefresh\<close>, \<open>fetch\<close> the URL and the bearer token. Each may throw.
\<close>

record registry =
  get_token :: "nat \<Rightarrow> bool \<Rightarrow> err_code + string"
  fetch :: "nat \<Rightarrow> string \<Rightarrow> string \<Rightarrow> err_code + response"

text \<open>How one turn of the \<open>while (true)\<close> loop of \<open>listTags\<close> ends.\<close>

datatype page_result =
    Throw err_code
  | Break "string list" "rate_limit option"
  | Continue string "string list" "rate_limit option" nat

text \<open>
  The tail shared by the first answer and the answer to the retry: push the tags of the
  page, then follow the next link, unless it is the URL just fetched.
\<close>

definition take_page :: "string \<Rightarrow> string list \<Rightarrow> rate_limit option \<Rightarrow> nat \<Rightarrow> response \<Rightarrow> page_result" where
  "take_page currentUrl tags rl n res =
     (case res_tags res of
        None \<Rightarrow> Throw (RUNTIME_ERROR ''invalid json'')
      | Some pageTags \<Rightarrow>
          (case res_next res of
             Some nextLink \<Rightarrow>
               if nextLink = currentUrl then Throw REGISTRY_PAGINATION_ERROR
               else Continue nextLink (tags @ pageTags) rl n
           | None \<Rightarrow> Break (tags @ pageTags) rl))"

definition or_rate :: "rate_limit option \<Rightarrow> rate_limit option \<Rightarrow> rate_limit option" where
  "or_rate new old = (case new of Some r \<Rightarrow> Some r | None \<Rightarrow> old)"

definition not_ok_error :: "response \<Rightarrow> err_code" where
  "not_ok_error res = (if res_status res = 429 then REGISTRY_RATE_LIMIT else REGISTRY_ERROR)"

definition fetch_page :: "registry \<Rightarrow> string \<Rightarrow> string list \<Rightarrow> rate_limit option \<Rightarrow> nat \<Rightarrow> page_result" where
  "fetch_page reg currentUrl tags rl n =
     (case get_token reg n False of
        Inl e \<Rightarrow> Throw e
      | Inr token \<Rightarrow>
          (case fetch reg (n + 1) currentUrl token of
             Inl e \<Rightarrow> Throw e
           | Inr res \<Rightarrow>
               (let rl1 = or_rate (res_rateLimit res) rl in
                if res_status res = 401 then
                  (case get_token reg (n + 2) True of
                     Inl e \<Rightarrow> Throw e
                   | Inr fresh \<Rightarrow>
                       (case fetch reg (n + 3) currentUrl fresh of
                          Inl e \<Rightarrow> Throw e
                        | Inr res2 \<Rightarrow>
                            (let rl2 = or_rate (res_rateLimit res2) rl1 in
                             if \<not> res_ok res2 then Throw (not_ok_error res2)
                             else take_page currentUrl tags rl2 (n + 4) res2)))
                else if \<not> res_ok res then Throw (not_ok_error res)
                else take_page currentUrl tags rl1 (n + 2) res)))"

function listTags_loop :: "registry \<Rightarrow> string \<Rightarrow> nat \<Rightarrow> string list \<Rightarrow> rate_limit option \<Rightarrow> nat \<Rightarrow> err_code + string list \<times> rate_limit option" where
  "listTags_loop reg url page tags rl n =
     (if page > 2000 then Inl REGISTRY_PAGINATION_ERROR
      else (case fetch_page reg url tags rl n of
              Throw e \<Rightarrow> Inl e
            | Break tags' rl' \<Rightarrow> Inr (sort (remdups tags'), rl')
            | Continue url' tags' rl' n' \<Rightarrow> listTags_loop reg url' (page + 1) tags' rl' n'))"
  by pat_completeness auto
termination
  by (relation "measure (\<lambda>(reg, url, page, tags, rl, n). 2001 - page)") auto

declare listTags_loop.simps [simp del]

text \<open>
  \<open>buildTagsListUrl(repo, '')\<close> builds the first URL with the \<open>URL\<close> class of the
  platform, which parses and normalises what it is given; the function from the
  repository name to that URL is the parameter \<open>buildTagsListUrl\<close>.
\<close>

definition listTags :: "registry \<Rightarrow> (string \<Rightarrow> string) \<Rightarrow> string \<Rightarrow> err_code + string list \<times> rate_limit option" where
  "listTags reg buildTagsListUrl imageRepo =
     (let repo = trim imageRepo in
      if repo = [] then Inl INVALID_INPUT
      else listTags_loop reg (buildTagsListUrl repo) 0 [] None 0)"

text \<open>
  For the proofs: a registry that answers every request for a URL \<open>u\<close> with \<open>resp u\<close>
  serves the listing \<open>us\<close> when each of these URLs answers 200 with a tags array, each
  links to the next, which is another URL than itself, and the last has no next link.
\<close>

fun listing :: "(string \<Rightarrow> response) \<Rightarrow> string list \<Rightarrow> bool" where
  "listing resp [] = False"
| "listing resp [u] =
     (res_ok (resp u) \<and> res_tags (resp u) \<noteq> None \<and> res_next (resp u) = None)"
| "listing resp (u # v # us) =
     (res_ok (resp u) \<and> res_tags (resp u) \<noteq> None \<and> res_next (resp u) = Some v \<and> v \<noteq> u \<and>
      listing resp (v # us))"

definition page_tags :: "(string \<Rightarrow> response) \<Rightarrow> string \<Rightarrow> string list" where
  "page_tags resp u = (case res_tags (resp u) of None \<Rightarrow> [] | Some ts \<Rightarrow> ts)"

definition serves :: "registry \<Rightarrow> string \<Rightarrow> (string \<Rightarrow> response) \<Rightarrow> bool" where
  "serves reg tok resp =
     ((\<forall>n force. get_token reg n force = Inr tok) \<and> (\<forall>n u. fetch reg n u tok = Inr (resp u)))"

text \<open>The first URL of the default repository, and a stand-in for \<open>buildTagsListUrl\<close>.\<close>

definition first_url :: "string \<Rightarrow> string" where
  "first_url repo = ''https://registry-1.docker.io/v2/'' @ repo @ ''/tags/list?n=100''"

text \<open>
  A registry that always answers 200 with one tag and a next link that differs from the
  URL asked for: every page advances, and the pages never end.
\<close>

definition endless :: registry where
  "endless = \<lparr>get_token = (\<lambda>n force. Inr ''token''),
              fetch = (\<lambda>n url token. Inr \<lparr>res_status = 200, res_rateLimit = None,
                         res_tags = Some [''v1''], res_next = Some (url @ ''&x'')\<rparr>)\<rparr>"

text \<open>A registry whose next link points back at the URL asked for.\<close>

definition stuck :: registry where
  "stuck = \<lparr>get_token = (\<lambda>n force. Inr ''token''),
            fetch = (\<lambda>n url token. Inr \<lparr>res_status = 200, res_rateLimit = None,
                       res_tags = Some [''v1''], res_next = Some url\<rparr>)\<rparr>"

text \<open>
  A registry with two pages, the second reached through the next link of the first and
  answered with rate-limit headers.
\<close>

definition second_url :: string where
  "second_url = first_url ''agent0ai/agent-zero'' @ ''&last=testing''"

definition some_rate :: rate_limit where
  "some_rate = \<lparr>rl_limit = Some ''100'', rl_remaining = Some ''99'', rl_reset = None,
                 rl_retryAfter = None\<rparr>"

definition two_pages_resp :: "string \<Rightarrow> response" where
  "two_pages_resp url =
     (if url = first_url ''agent0ai/agent-zero''
      then \<lparr>res_status = 200, res_rateLimit = None, res_tags = Some [''v0.9.8'', ''testing''],
            res_next = Some second_url\<rparr>
      else \<lparr>res_status = 200, res_rateLimit = Some some_rate,
            res_tags = Some [''latest'', ''testing''], res_next = None\<rparr>)"

definition two_pages :: registry where
  "two_pages = \<lparr>get_token = (\<lambda>n force. Inr ''token''),
                fetch = (\<lambda>n url token. Inr (two_pages_resp url))\<rparr>"

text \<open>
  A registry that answers 401 to the cached token and, to the refreshed one, a page
  whose next link points back at the URL asked for.
\<close>

definition expired :: registry where
  "expired = \<lparr>get_token = (\<lambda>n force. Inr (if force then ''fresh'' else ''stale'')),
              fetch = (\<lambda>n url token.
                if token = ''stale''
                then Inr \<lparr>res_status = 401, res_rateLimit = None, res_tags = None, res_next = None\<rparr>
                else Inr \<lparr>res_status = 200, res_rateLimit = None,
                          res_tags = Some [''v1''], res_next = Some url\<rparr>)\<rparr>"


section \<open>Pull progress (docker\_adapter/impl/DockerodeDocker.mjs, pullImage)\<close>

text \<open>
  \<open>toLowerCase\<close> on the ASCII letters. The statuses are only searched for ASCII words,
  which no other lower-casing can produce or destroy.
\<close>

definition to_lower :: "char \<Rightarrow> char" where
  "to_lower c =
     (case map_of (zip ''ABCDEFGHIJKLMNOPQRSTUVWXYZ'' ''abcdefghijklmnopqrstuvwxyz'') c of
        Some d \<Rightarrow> d
      | None \<Rightarrow> c)"

primrec js_includes :: "string \<Rightarrow> string \<Rightarrow> bool" where
  "js_includes p [] = (p = [])"
| "js_includes p (c # cs) = (prefix p (c # cs) \<or> js_includes p cs)"

record layer =
  layer_id :: string
  dlCurrent :: real
  dlTotal :: real
  dlComplete :: bool
  xCurrent :: real
  xTotal :: real
  xComplete :: bool
  alreadyExists :: bool

text \<open>
  The variable \<open>prefetched\<close>: the layer sizes of the manifest, present only when the
  registry answered with a positive total.
\<close>

record prefetched_sizes =
  layersById :: "(string \<times> real) list"
  totalBytes :: real

text \<open>The fields of \<open>pullState\<close> that the progress handler reads and writes.\<close>

record pull_state =
  layers :: "layer list"
  lastNewLayerAtMs :: int
  dlDenomFrozen :: real
  xDenomFrozen :: real
  lastDlPercent :: real
  lastXPercent :: real

text \<open>
  An event of the pull stream as the handler reads it: \<open>status\<close> and \<open>id\<close> when they are
  strings, \<open>progressDetail.current\<close> and \<open>progressDetail.total\<close> when \<open>Number\<close> makes a
  finite number of them, and the value of \<open>Date.now()\<close> while the handler runs.
\<close>

record pull_event =
  ev_status :: "string option"
  ev_id :: "string option"
  ev_current :: "real option"
  ev_total :: "real option"
  ev_now :: int

text \<open>What the handler passes to \<open>onProgress\<close>.\<close>

record progress_event =
  pe_status :: "string option"
  pe_id :: "string option"
  pe_current :: "real option"
  pe_total :: "real option"
  pe_layerProgress :: "real option"
  pe_downloadProgress :: "real option"
  pe_extractProgress :: "real option"
  pe_layersTotal :: nat
  pe_downloadLayersDone :: nat
  pe_extractLayersDone :: nat
  pe_pullingLayer :: bool

definition new_layer :: "string \<Rightarrow> real \<Rightarrow> layer" where
  "new_layer i sz =
     \<lparr>layer_id = i, dlCurrent = 0, dlTotal = sz, dlComplete = False,
      xCurrent = 0, xTotal = sz, xComplete = False, alreadyExists = False\<rparr>"

text \<open>\<open>Map.prototype.has\<close>, \<open>get\<close> and \<open>set\<close> on \<open>_layers\<close>, a map in insertion order.\<close>

definition has_layer :: "layer list \<Rightarrow> string \<Rightarrow> bool" where
  "has_layer ls i = list_ex (\<lambda>l. layer_id l = i) ls"

definition get_layer :: "layer list \<Rightarrow> string \<Rightarrow> layer option" where
  "get_layer ls i = find (\<lambda>l. layer_id l = i) ls"

fun set_layer :: "layer \<Rightarrow> layer list \<Rightarrow> layer list" where
  "set_layer l [] = [l]"
| "set_layer l (k # ks) = (if layer_id k = layer_id l then l # ks else k # set_layer l ks)"

text \<open>The state before the first event: \<open>now\<close> is \<open>Date.now()\<close> at the start of the pull.\<close>

definition seed_prefetched :: "(string \<times> real) list \<Rightarrow> layer list \<Rightarrow> layer list" where
  "seed_prefetched sizes ls =
     foldl (\<lambda>acc (i, sz). if i = [] \<or> sz \<le> 0 then acc else set_layer (new_layer i sz) acc)
       ls sizes"

definition init_pull :: "int \<Rightarrow> prefetched_sizes option \<Rightarrow> pull_state" where
  "init_pull now pre =
     (let s0 = \<lparr>layers = [], lastNewLayerAtMs = now, dlDenomFrozen = 0, xDenomFrozen = 0,
                lastDlPercent = 0, lastXPercent = 0\<rparr>
      in case pre of
           None \<Rightarrow> s0
         | Some p \<Rightarrow> s0\<lparr>dlDenomFrozen := totalBytes p, xDenomFrozen := totalBytes p,
                        layers := seed_prefetched (layersById p) []\<rparr>)"

text \<open>Only an id of at least twelve hexadecimal digits names a layer, by its first twelve.\<close>

definition layer_key :: "string option \<Rightarrow> string option" where
  "layer_key rawId =
     (case rawId of
        None \<Rightarrow> None
      | Some r \<Rightarrow> if length r \<ge> 12 \<and> list_all is_hex r then Some (take 12 r) else None)"

definition layerPercent :: "real option \<Rightarrow> real option \<Rightarrow> real option" where
  "layerPercent current totl =
     (case (current, totl) of
        (Some c, Some t) \<Rightarrow>
          if t > 0 then Some (max 0 (min 100 (of_int \<lfloor>c / t * 100\<rfloor>))) else None
      | _ \<Rightarrow> None)"

definition seed_layer :: "prefetched_sizes option \<Rightarrow> string \<Rightarrow> int \<Rightarrow> pull_state \<Rightarrow> pull_state" where
  "seed_layer pre i now st =
     (if has_layer (layers st) i then st
      else let prefSize = (case pre of None \<Rightarrow> None | Some p \<Rightarrow> map_of (layersById p) i);
               seedTotal = (case prefSize of Some z \<Rightarrow> if z > 0 then z else 0 | None \<Rightarrow> 0)
           in st\<lparr>layers := set_layer (new_layer i seedTotal) (layers st),
                 lastNewLayerAtMs := now\<rparr>)"

text \<open>The five status blocks of the handler, in the order of the source.\<close>

definition on_already_exists :: "layer \<Rightarrow> layer" where
  "on_already_exists l =
     (let l1 = l\<lparr>alreadyExists := True, dlComplete := True, xComplete := True\<rparr>;
          l2 = (if dlTotal l1 > 0 then l1\<lparr>dlCurrent := dlTotal l1\<rparr> else l1)
      in if xTotal l2 > 0 then l2\<lparr>xCurrent := xTotal l2\<rparr> else l2)"

definition on_downloading :: "real option \<Rightarrow> real option \<Rightarrow> layer \<Rightarrow> layer" where
  "on_downloading current totl l =
     (let l1 = (case totl of
                  Some t \<Rightarrow> if t > 0 then l\<lparr>dlTotal := max (dlTotal l) t\<rparr> else l
                | None \<Rightarrow> l);
          l2 = (case current of Some c \<Rightarrow> l1\<lparr>dlCurrent := max (dlCurrent l1) c\<rparr> | None \<Rightarrow> l1);
          l3 = (if dlTotal l2 > 0 then l2\<lparr>dlCurrent := max 0 (min (dlCurrent l2) (dlTotal l2))\<rparr>
                else l2)
      in if xTotal l3 = 0 \<and> dlTotal l3 > 0 then l3\<lparr>xTotal := dlTotal l3\<rparr> else l3)"

definition on_download_complete :: "layer \<Rightarrow> layer" where
  "on_download_complete l =
     (let l1 = l\<lparr>dlComplete := True\<rparr>
      in if dlTotal l1 > 0 then l1\<lparr>dlCurrent := dlTotal l1\<rparr> else l1)"

definition on_extracting :: "real option \<Rightarrow> real option \<Rightarrow> layer \<Rightarrow> layer" where
  "on_extracting current totl l =
     (let l1 = (case totl of
                  Some t \<Rightarrow> if t > 0 then l\<lparr>xTotal := max (xTotal l) t\<rparr> else l
                | None \<Rightarrow> l);
          l2 = (case current of Some c \<Rightarrow> l1\<lparr>xCurrent := max (xCurrent l1) c\<rparr> | None \<Rightarrow> l1)
      in if xTotal l2 > 0 then l2\<lparr>xCurrent := max 0 (min (xCurrent l2) (xTotal l2))\<rparr> else l2)"

definition on_pull_complete :: "layer \<Rightarrow> layer" where
  "on_pull_complete l =
     (let l1 = l\<lparr>dlComplete := True, xComplete := True\<rparr>;
          l2 = (if dlTotal l1 > 0 then l1\<lparr>dlCurrent := dlTotal l1\<rparr> else l1)
      in if xTotal l2 > 0 then l2\<lparr>xCurrent := xTotal l2\<rparr> else l2)"

definition update_layer :: "string \<Rightarrow> real option \<Rightarrow> real option \<Rightarrow> layer \<Rightarrow> layer" where
  "update_layer statusNorm current totl l =
     (let l1 = (if js_includes ''already exists'' statusNorm then on_already_exists l else l);
          l2 = (if js_includes ''downloading'' statusNorm then on_downloading current totl l1 else l1);
          l3 = (if js_includes ''download complete'' statusNorm then on_download_complete l2 else l2);
          l4 = (if js_includes ''extracting'' statusNorm then on_extracting current totl l3 else l3)
      in if js_includes ''pull complete'' statusNorm then on_pull_complete l4 else l4)"

datatype kind = Dl | X

record totals =
  doneBytes :: real
  sumBytes :: real
  doneLayers :: nat
  denom :: real
  percent :: "real option"

text \<open>One turn of the loop of \<open>computeTotals\<close> over the layers.\<close>

definition add_layer :: "kind \<Rightarrow> real \<times> real \<times> nat \<Rightarrow> layer \<Rightarrow> real \<times> real \<times> nat" where
  "add_layer k acc st =
     (let (done, tot_sum, n) = acc;
          isDone = (case k of Dl \<Rightarrow> dlComplete st \<or> alreadyExists st
                            | X \<Rightarrow> xComplete st \<or> alreadyExists st);
          totRaw = (case k of Dl \<Rightarrow> dlTotal st | X \<Rightarrow> xTotal st);
          curRaw = (case k of Dl \<Rightarrow> dlCurrent st | X \<Rightarrow> xCurrent st)
      in if totRaw \<le> 0 \<and> \<not> isDone then acc
         else let tot = (if totRaw \<le> 0 then 1 else totRaw);
                  cur = (if totRaw \<le> 0 then 1 else curRaw)
              in (done + (if isDone then tot else min cur tot), tot_sum + tot,
                  n + (if isDone \<or> cur \<ge> tot then 1 else 0)))"

definition computeTotals :: "pull_state \<Rightarrow> kind \<Rightarrow> totals" where
  "computeTotals ps k =
     (let (done, tot_sum, n) = foldl (add_layer k) (0, 0, 0) (layers ps);
          frozen = (case k of Dl \<Rightarrow> dlDenomFrozen ps | X \<Rightarrow> xDenomFrozen ps);
          d = (if frozen > 0 then frozen else tot_sum)
      in \<lparr>doneBytes = done, sumBytes = tot_sum, doneLayers = n, denom = d,
          percent = (if d > 0 then Some (max 0 (min 100 (of_int (round (done / d * 100)))))
                     else None)\<rparr>)"

definition FREEZE_DELAY_MS :: int where
  "FREEZE_DELAY_MS = 1500"

definition freeze :: "prefetched_sizes option \<Rightarrow> int \<Rightarrow> pull_state \<Rightarrow> pull_state" where
  "freeze pre nowMs ps =
     (let timeSinceNewLayer =
            max 0 (nowMs - (if lastNewLayerAtMs ps = 0 then nowMs else lastNewLayerAtMs ps))
      in if pre = None \<and> timeSinceNewLayer \<ge> FREEZE_DELAY_MS then
           (let ps1 = (if dlDenomFrozen ps = 0 \<and> sumBytes (computeTotals ps Dl) > 0
                       then ps\<lparr>dlDenomFrozen := sumBytes (computeTotals ps Dl)\<rparr> else ps)
            in if xDenomFrozen ps1 = 0 \<and> sumBytes (computeTotals ps1 X) > 0
               then ps1\<lparr>xDenomFrozen := sumBytes (computeTotals ps1 X)\<rparr> else ps1)
         else ps)"

text \<open>
  The clamp: a computed percentage is reported as the larger of itself and the last
  reported one, and remembered; \<open>null\<close> is reported as it is and nothing is remembered.
\<close>

definition clamp_report :: "real \<Rightarrow> real option \<Rightarrow> real option \<times> real" where
  "clamp_report lastPercent computed =
     (case computed of
        None \<Rightarrow> (None, lastPercent)
      | Some p \<Rightarrow> (Some (max lastPercent p), max lastPercent p))"

text \<open>
  The first half of the handler: seed the layer of a new id, apply the status blocks to
  the layer of the event, and freeze the denominators when no layer has appeared for
  \<open>FREEZE_DELAY_MS\<close>.
\<close>

definition absorb :: "prefetched_sizes option \<Rightarrow> pull_state \<Rightarrow> pull_event \<Rightarrow> pull_state" where
  "absorb pre ps ev =
     (let i = layer_key (ev_id ev);
          statusNorm = map to_lower (case ev_status ev of None \<Rightarrow> [] | Some s \<Rightarrow> s);
          ps1 = (case i of None \<Rightarrow> ps | Some k \<Rightarrow> seed_layer pre k (ev_now ev) ps);
          ps2 = (case i of
                   None \<Rightarrow> ps1
                 | Some k \<Rightarrow>
                     (case get_layer (layers ps1) k of
                        None \<Rightarrow> ps1
                      | Some l \<Rightarrow>
                          ps1\<lparr>layers := set_layer (update_layer statusNorm (ev_current ev) (ev_total ev) l)
                                          (layers ps1)\<rparr>))
      in freeze pre (ev_now ev) ps2)"

text \<open>The second half: both aggregates, the clamp, and the event for \<open>onProgress\<close>.\<close>

definition handle_event :: "prefetched_sizes option \<Rightarrow> pull_state \<Rightarrow> pull_event \<Rightarrow> pull_state \<times> progress_event" where
  "handle_event pre ps ev =
     (let i = layer_key (ev_id ev);
          statusNorm = map to_lower (case ev_status ev of None \<Rightarrow> [] | Some s \<Rightarrow> s);
          ps3 = absorb pre ps ev;
          dlAgg = computeTotals ps3 Dl;
          xAgg = computeTotals ps3 X;
          (downloadProgress, lastDl) = clamp_report (lastDlPercent ps3) (percent dlAgg);
          (extractProgress, lastX) = clamp_report (lastXPercent ps3) (percent xAgg)
      in (ps3\<lparr>lastDlPercent := lastDl, lastXPercent := lastX\<rparr>,
          \<lparr>pe_status = ev_status ev, pe_id = i, pe_current = ev_current ev, pe_total = ev_total ev,
           pe_layerProgress = layerPercent (ev_current ev) (ev_total ev),
           pe_downloadProgress = downloadProgress, pe_extractProgress = extractProgress,
           pe_layersTotal = length (layers ps3),
           pe_downloadLayersDone = doneLayers dlAgg, pe_extractLayersDone = doneLayers xAgg,
           pe_pullingLayer = (js_includes ''pulling fs layer'' statusNorm \<and> i \<noteq> None)\<rparr>))"

text \<open>The progress events of a whole stream, in order.\<close>

fun follow :: "prefetched_sizes option \<Rightarrow> pull_state \<Rightarrow> pull_event list \<Rightarrow> progress_event list" where
  "follow pre ps [] = []"
| "follow pre ps (ev # evs) = (let (ps', out) = handle_event pre ps ev in out # follow pre ps' evs)"

definition pullImage_events :: "int \<Rightarrow> prefetched_sizes option \<Rightarrow> pull_event list \<Rightarrow> progress_event list" where
  "pullImage_events now pre evs = follow pre (init_pull now pre) evs"

text \<open>The values of a sequence of optional numbers, ignoring \<open>null\<close>.\<close>

definition non_null :: "real option list \<Rightarrow> real list" where
  "non_null xs = List.map_filter id xs"


section \<open>Progress of the pull-bearing operations (service\_versions/index.js)\<close>

text \<open>
  The \<open>onProgress\<close> callback that \<open>installOrSync\<close> and \<open>updateToLatest\<close> pass to
  \<open>pullImage\<close>: it yields the patch for \<open>updateOperationProgress\<close>.
\<close>

definition onProgress :: "progress_event \<Rightarrow> patch" where
  "onProgress evt =
     (let dl = pe_downloadProgress evt;
          ex = pe_extractProgress evt;
          msg = (if (case dl of Some d \<Rightarrow> d < 100 | None \<Rightarrow> False) then ''Downloading''
                 else if (case ex of Some e \<Rightarrow> e < 100 | None \<Rightarrow> False) then ''Extracting''
                 else ''Downloading'')
      in \<lparr>p_message = Some (Some msg), p_progress = Some dl,
          p_downloadProgress = Some dl, p_extractProgress = Some ex\<rparr>)"

text \<open>The patch \<open>{ message: m, progress: null }\<close> that narrates a step.\<close>

definition msg_patch :: "string \<Rightarrow> patch" where
  "msg_patch m = \<lparr>p_message = Some (Some m), p_progress = Some None,
                  p_downloadProgress = None, p_extractProgress = None\<rparr>"

definition downloading_patch :: patch where
  "downloading_patch = \<lparr>p_message = Some (Some ''Downloading''), p_progress = Some None,
                        p_downloadProgress = Some (Some 0), p_extractProgress = Some (Some 0)\<rparr>"

definition install_completed_patch :: patch where
  "install_completed_patch = \<lparr>p_message = Some (Some ''Completed''), p_progress = Some (Some 100),
                              p_downloadProgress = Some (Some 100), p_extractProgress = Some (Some 100)\<rparr>"

definition completed_patch :: patch where
  "completed_patch = \<lparr>p_message = Some (Some ''Completed''), p_progress = Some (Some 100),
                      p_downloadProgress = None, p_extractProgress = None\<rparr>"

text \<open>
  How the body of an install went: it threw before the pull (with the message of the
  failed operation), or it pulled, \<open>pullImage\<close> reporting the given events and then
  returning \<open>completed\<close>, returning \<open>aborted_client\<close>, or throwing.
\<close>

datatype pull_end = Pull_completed | Pull_aborted | Pull_threw string

datatype install_run =
    Install_unavailable string
  | Install_pulled "progress_event list" pull_end

text \<open>
  What the body of \<open>installOrSync\<close> does to the operation record, after
  \<open>beginOperation\<close>; \<open>now\<close> is \<open>nowIso()\<close> at the finish.
\<close>

fun install_body :: "install_run \<Rightarrow> string \<Rightarrow> action list" where
  "install_body (Install_unavailable m) now =
     [Do_update (msg_patch ''Checking availability''), Do_finish T_failed (Some m) now]"
| "install_body (Install_pulled outs e) now =
     [Do_update (msg_patch ''Checking availability''), Do_update downloading_patch]
     @ map (\<lambda>evt. Do_update (onProgress evt)) outs
     @ (case e of
          Pull_completed \<Rightarrow> [Do_finish T_completed None now, Do_update install_completed_patch]
        | Pull_aborted \<Rightarrow> [Do_finish T_canceled (Some ''Canceled'') now]
        | Pull_threw m \<Rightarrow> [Do_finish T_failed (Some m) now])"

text \<open>
  How the body of an update went. After a completed pull it narrates the steps of the
  switch, each by a message patch, and finishes as completed or, when a step throws, as
  failed.
\<close>

datatype after_pull =
    Update_aborted
  | Update_pull_threw string
  | Update_switched "string list" "string option"

datatype update_run =
    Update_no_release string
  | Update_unavailable string string
  | Update_pulled string "progress_event list" after_pull

fun update_body :: "update_run \<Rightarrow> string \<Rightarrow> action list" where
  "update_body (Update_no_release m) now =
     [Do_update (msg_patch ''Checking for updates''), Do_finish T_failed (Some m) now]"
| "update_body (Update_unavailable tgt m) now =
     [Do_update (msg_patch ''Checking for updates''), Do_set_target (Some tgt),
      Do_update (msg_patch ''Verifying availability''), Do_finish T_failed (Some m) now]"
| "update_body (Update_pulled tgt outs e) now =
     [Do_update (msg_patch ''Checking for updates''), Do_set_target (Some tgt),
      Do_update (msg_patch ''Verifying availability''), Do_update downloading_patch]
     @ map (\<lambda>evt. Do_update (onProgress evt)) outs
     @ (case e of
          Update_aborted \<Rightarrow> [Do_finish T_canceled (Some ''Canceled'') now]
        | Update_pull_threw m \<Rightarrow> [Do_finish T_failed (Some m) now]
        | Update_switched msgs res \<Rightarrow>
            map (\<lambda>m. Do_update (msg_patch m)) (''Switching versions'' # msgs)
            @ (case res of
                 None \<Rightarrow> [Do_finish T_completed None now, Do_update completed_patch]
               | Some m \<Rightarrow> [Do_finish T_failed (Some m) now]))"

text \<open>
  For the proofs: the \<open>downloadProgress\<close> and \<open>extractProgress\<close> of the snapshot that an
  action of an operation body leaves, given the value before it.
\<close>

fun dl_after :: "real option \<Rightarrow> action \<Rightarrow> real option" where
  "dl_after d (Do_update p) = (case p_downloadProgress p of None \<Rightarrow> d | Some v \<Rightarrow> v)"
| "dl_after d _ = d"

fun x_after :: "real option \<Rightarrow> action \<Rightarrow> real option" where
  "x_after d (Do_update p) = (case p_extractProgress p of None \<Rightarrow> d | Some v \<Rightarrow> v)"
| "x_after d _ = d"

fun scan :: "('a \<Rightarrow> 'b \<Rightarrow> 'a) \<Rightarrow> 'a \<Rightarrow> 'b list \<Rightarrow> 'a list" where
  "scan f d [] = []"
| "scan f d (a # as) = f d a # scan f (f d a) as"

fun is_call :: "action \<Rightarrow> bool" where
  "is_call (Do_call c st) = True"
| "is_call _ = False"

text \<open>
  A small pull stream: layer \<open>a\<close> of 100 bytes is half downloaded when layer \<open>b\<close> of 900
  bytes appears, so the computed download percentage falls from 50 to 5.
\<close>

definition example_ev1 :: pull_event where
  "example_ev1 = \<lparr>ev_status = Some ''Downloading'', ev_id = Some ''aaaaaaaaaaaa'',
                   ev_current = Some 50, ev_total = Some 100, ev_now = 1100\<rparr>"

definition example_ev2 :: pull_event where
  "example_ev2 = \<lparr>ev_status = Some ''Downloading'', ev_id = Some ''bbbbbbbbbbbb'',
                   ev_current = Some 0, ev_total = Some 900, ev_now = 1300\<rparr>"

definition example_stream :: "pull_event list" where
  "example_stream = [example_ev1, example_ev2]"

definition layer_a :: layer where
  "layer_a = \<lparr>layer_id = ''aaaaaaaaaaaa'', dlCurrent = 50, dlTotal = 100, dlComplete = False,
               xCurrent = 0, xTotal = 100, xComplete = False, alreadyExists = False\<rparr>"

definition layer_b :: layer where
  "layer_b = \<lparr>layer_id = ''bbbbbbbbbbbb'', dlCurrent = 0, dlTotal = 900, dlComplete = False,
               xCurrent = 0, xTotal = 900, xComplete = False, alreadyExists = False\<rparr>"

definition after_ev1 :: pull_state where
  "after_ev1 = \<lparr>layers = [layer_a], lastNewLayerAtMs = 1100, dlDenomFrozen = 0, xDenomFrozen = 0,
                 lastDlPercent = 50, lastXPercent = 0\<rparr>"


section \<open>Container names (service\_versions/retention.js)\<close>

definition PREFIX :: string where
  "PREFIX = ''a0-svc''"

text \<open>The character class \<open>[\x20-\x7E]\<close>.\<close>

definition is_printable :: "char \<Rightarrow> bool" where
  "is_printable c = (let n = (of_char c :: nat) in 32 \<le> n \<and> n \<le> 126)"

text \<open>\<open>.replace(/[^A-Za-z0-9_.-]+/g, '-')\<close>: every maximal run of other characters becomes one dash.\<close>

function collapse_runs :: "string \<Rightarrow> string" where
  "collapse_runs [] = []"
| "collapse_runs (c # cs) =
     (if is_name_char c then c # collapse_runs cs
      else CHR ''-'' # collapse_runs (dropWhile (\<lambda>d. \<not> is_name_char d) cs))"
  by pat_completeness auto
termination
  by (relation "measure length") (auto simp: less_Suc_eq_le length_dropWhile_le)

definition strip_dashes :: "string \<Rightarrow> string" where
  "strip_dashes s =
     rev (dropWhile (\<lambda>c. c = CHR ''-'') (rev (dropWhile (\<lambda>c. c = CHR ''-'') s)))"

definition sanitizeNamePart :: "string \<Rightarrow> string" where
  "sanitizeNamePart val =
     (let v = trim val in
      if v = [] then ''unknown''
      else let cleaned = strip_dashes (collapse_runs (filter is_printable v))
           in if cleaned = [] then ''unknown'' else cleaned)"

definition repoSlug :: "string \<Rightarrow> string" where
  "repoSlug imageRepo = sanitizeNamePart (map (\<lambda>c. if c = CHR ''/'' then CHR ''-'' else c) imageRepo)"

definition getActiveContainerName :: "string \<Rightarrow> string" where
  "getActiveContainerName imageRepo = PREFIX @ ''-active__'' @ repoSlug imageRepo"

text \<open>
  A \<open>Date\<close>: invalid, or a time given by its UTC fields, as \<open>getUTCFullYear\<close>,
  \<open>getUTCMonth() + 1\<close>, \<open>getUTCDate\<close>, \<open>getUTCHours\<close>, \<open>getUTCMinutes\<close> and
  \<open>getUTCSeconds\<close> return them. Parsing a string into a \<open>Date\<close> is left to the platform:
  the functions below take the \<open>Date\<close> that \<open>new Date(iso || Date.now())\<close> yields.
\<close>

record utc =
  year :: int
  month :: nat
  day :: nat
  hours :: nat
  minutes :: nat
  seconds :: nat

datatype js_date = Valid_date utc | Invalid_date

text \<open>\<open>String(n)\<close> for an integer.\<close>

definition digit :: "nat \<Rightarrow> char" where
  "digit n = ''0123456789'' ! n"

fun dec :: "nat \<Rightarrow> string" where
  "dec n = (if n < 10 then [digit n] else dec (n div 10) @ [digit (n mod 10)])"

declare dec.simps [simp del]

definition string_of_int :: "int \<Rightarrow> string" where
  "string_of_int i = (if i < 0 then CHR ''-'' # dec (nat (- i)) else dec (nat i))"

text \<open>\<open>String(n).padStart(2, '0')\<close>.\<close>

definition pad :: "nat \<Rightarrow> string" where
  "pad n = (let s = dec n in if length s < 2 then replicate (2 - length s) (CHR ''0'') @ s else s)"

definition isoToCompactTimestamp :: "js_date \<Rightarrow> string" where
  "isoToCompactTimestamp d =
     (case d of
        Invalid_date \<Rightarrow> ''NaNNaNNaNTNaNNaNNaNZ''
      | Valid_date u \<Rightarrow>
          string_of_int (year u) @ pad (month u) @ pad (day u) @ ''T''
          @ pad (hours u) @ pad (minutes u) @ pad (seconds u) @ ''Z'')"

text \<open>The pattern \<open>/^\d{8}T\d{6}Z$/\<close>.\<close>

definition is_compact_timestamp :: "string \<Rightarrow> bool" where
  "is_compact_timestamp t =
     (length t = 16 \<and> list_all is_digit (take 8 t) \<and> t ! 8 = CHR ''T'' \<and>
      list_all is_digit (take 6 (drop 9 t)) \<and> t ! 15 = CHR ''Z'')"

definition compactTimestampToIso :: "string \<Rightarrow> string" where
  "compactTimestampToIso ts =
     (let t = trim ts in
      if \<not> is_compact_timestamp t then []
      else take 4 t @ ''-'' @ take 2 (drop 4 t) @ ''-'' @ take 2 (drop 6 t) @ ''T''
           @ take 2 (drop 9 t) @ '':'' @ take 2 (drop 11 t) @ '':'' @ take 2 (drop 13 t) @ ''Z'')"

definition makeRetainedContainerName :: "string \<Rightarrow> string \<Rightarrow> js_date \<Rightarrow> string" where
  "makeRetainedContainerName imageRepo tag retainedAt =
     (let ts = isoToCompactTimestamp retainedAt;
          tagSlug = sanitizeNamePart tag
      in PREFIX @ ''-retained__'' @ repoSlug imageRepo @ ''__'' @ ts @ ''__'' @ tagSlug)"

text \<open>\<open>name.split('__')\<close>: the separator is found from the left, without overlap.\<close>

fun split_dunder :: "string \<Rightarrow> string list" where
  "split_dunder [] = [[]]"
| "split_dunder [c] = [[c]]"
| "split_dunder (a # b # cs) =
     (if a = CHR ''_'' \<and> b = CHR ''_'' then [] # split_dunder cs
      else (case split_dunder (b # cs) of
              [] \<Rightarrow> [[a]]
            | p # ps \<Rightarrow> (a # p) # ps))"

text \<open>\<open>parts.join('__')\<close>.\<close>

fun join_dunder :: "string list \<Rightarrow> string" where
  "join_dunder [] = []"
| "join_dunder [p] = p"
| "join_dunder (p # q # ps) = p @ ''__'' @ join_dunder (q # ps)"

record retained_name =
  rn_tag :: string
  rn_retainedAt :: string

definition parseRetainedContainerName :: "string \<Rightarrow> retained_name option" where
  "parseRetainedContainerName containerName =
     (let name = trim containerName in
      if \<not> prefix (PREFIX @ ''-retained__'') name then None
      else let parts = split_dunder name in
        if length parts < 4 then None
        else let retainedAt = compactTimestampToIso (parts ! 2) in
          if retainedAt = [] then None
          else let tag = join_dunder (drop 3 parts) in
            if tag = [] then None
            else Some \<lparr>rn_tag = tag, rn_retainedAt = retainedAt\<rparr>)"

definition isManagedContainerName :: "string \<Rightarrow> bool" where
  "isManagedContainerName containerName =
     (let name = trim containerName in
      prefix (PREFIX @ ''-active__'') name \<or> prefix (PREFIX @ ''-retained__'') name)"

text \<open>The time \<open>YYYY-MM-DDTHH:MM:SSZ\<close> of a date, cut to whole seconds.\<close>

definition iso_seconds :: "utc \<Rightarrow> string" where
  "iso_seconds u =
     string_of_int (year u) @ ''-'' @ pad (month u) @ ''-'' @ pad (day u) @ ''T''
     @ pad (hours u) @ '':'' @ pad (minutes u) @ '':'' @ pad (seconds u) @ ''Z''"

text \<open>The fields of a date that \<open>Date\<close> can hold, with a year of four digits.\<close>

definition four_digit_date :: "utc \<Rightarrow> bool" where
  "four_digit_date u =
     (1000 \<le> year u \<and> year u \<le> 9999 \<and> 1 \<le> month u \<and> month u \<le> 12 \<and>
      1 \<le> day u \<and> day u \<le> 31 \<and> hours u \<le> 23 \<and> minutes u \<le> 59 \<and> seconds u \<le> 59)"

text \<open>The safe pattern \<open>[A-Za-z0-9][A-Za-z0-9_.-]*\<close>.\<close>

definition safe_pattern :: "string \<Rightarrow> bool" where
  "safe_pattern t = (t \<noteq> [] \<and> is_alnum (hd t) \<and> list_all is_name_char (tl t))"

definition example_date :: utc where
  "example_date = \<lparr>year = 2024, month = 3, day = 9, hours = 7, minutes = 5, seconds = 0\<rparr>"


section \<open>Proofs: strings and tags\<close>

lemma dropWhile_trim: "dropWhile js_space (trim s) = trim s"
  unfolding trim_def
  by (metis (no_types, lifting) ext Nil_is_rev_conv dropWhile_eq_Nil_conv
    dropWhile_eq_self_iff dropWhile_last hd_dropWhile hd_rev last_rev)

lemma trim_idem: "trim (trim s) = trim s"
proof -
  have "trim (trim s) = rev (dropWhile js_space (rev (trim s)))"
    by (simp add: trim_def [of "trim s"] dropWhile_trim)
  also have "\<dots> = trim s"
    by (simp add: trim_def dropWhile_idem)
  finally show ?thesis .
qed

lemma name_char_plain: "is_name_char c \<Longrightarrow> c \<noteq> CHR '':'' \<and> c \<noteq> CHR ''/'' \<and> \<not> js_space c"
  by (auto simp: is_name_char_def is_alnum_def is_upper_def is_lower_def is_digit_def js_space_def)

lemma alnum_name_char: "is_alnum c \<Longrightarrow> is_name_char c"
  by (simp add: is_name_char_def)

lemma safe_pattern_plain:
  assumes "t \<noteq> []" "is_alnum (hd t)" "list_all is_name_char (tl t)"
  shows "CHR '':'' \<notin> set t \<and> CHR ''/'' \<notin> set t \<and> \<not> list_ex js_space t"
proof -
  from assms have "list_all is_name_char t"
    by (cases t) (simp_all add: alnum_name_char)
  then show ?thesis
    using name_char_plain by (auto simp: list_all_iff list_ex_iff)
qed

lemma isSafeTag_iff:
  "isSafeTag t \<longleftrightarrow>
     (let u = trim t in u \<noteq> [] \<and> length u \<le> 128 \<and> is_alnum (hd u) \<and> list_all is_name_char (tl u))"
  using safe_pattern_plain [of "trim t"] by (auto simp: isSafeTag_def Let_def)

lemma install_accepts_iff:
  "assertTagAllowedForInstall sv tag = Inr t \<longleftrightarrow>
     t = trim tag \<and> t \<noteq> [] \<and> length t \<le> 128 \<and> is_alnum (hd t) \<and> list_all is_name_char (tl t) \<and>
     (t = ''testing'' \<or> (\<exists>r. t = CHR ''v'' # r \<and> sv r) \<or> t \<in> set CANONICAL_LOCAL_TAGS)"
  by (auto simp: assertTagAllowedForInstall_def isSafeTag_iff Let_def trim_idem isTestingTag_def
      isSemverReleaseTag_def isCanonicalLocalTag_def prefix_def)

lemma install_rejects_examples:
  "assertTagAllowedForInstall sv ''../etc'' = Inl INVALID_TAG"
  "assertTagAllowedForInstall sv ''a:b'' = Inl INVALID_TAG"
  "assertTagAllowedForInstall sv ''v1.0.0; rm -rf'' = Inl INVALID_TAG"
  by (simp_all add: assertTagAllowedForInstall_def isSafeTag_def trim_def js_space_def)

lemma install_accepts_testing: "assertTagAllowedForInstall sv ''testing'' = Inr ''testing''"
  by (simp add: assertTagAllowedForInstall_def isSafeTag_def trim_def js_space_def is_alnum_def
      is_name_char_def is_upper_def is_lower_def is_digit_def isTestingTag_def)

lemma install_accepts_release:
  "sv ''1.2.3'' \<Longrightarrow> assertTagAllowedForInstall sv ''v1.2.3'' = Inr ''v1.2.3''"
  by (simp add: assertTagAllowedForInstall_def isSafeTag_def trim_def js_space_def is_alnum_def
      is_name_char_def is_upper_def is_lower_def is_digit_def isTestingTag_def
      isSemverReleaseTag_def)

lemma installOrSync_invalid:
  "assertTagAllowedForInstall sv tag = Inl e \<Longrightarrow> installOrSync sv tag st s = Inl e"
  by (simp add: installOrSync_def bind_err_def)

lemma installOrSync_idle:
  assumes "assertTagAllowedForInstall sv tag = Inr t" "t \<noteq> []" "currentOperation s = None"
  shows "\<exists>s'. installOrSync sv tag st s = Inr (fresh_id st, s') \<and>
           (\<exists>c. currentOperation s' = Some c \<and> optype c = Install \<and> status c = Running \<and>
                targetVersionTag c = Some t)"
  using assms
  by (simp add: installOrSync_def bind_err_def requireNoRunningOperation_def beginOperation_def
      emit_progress_def Let_def)

text \<open>
  Claim C4. \<open>install("../etc")\<close>, \<open>install("a:b")\<close> and \<open>install("v1.0.0; rm -rf")\<close> are
  rejected with \<open>INVALID_TAG\<close> before anything else happens, in every module state;
  \<open>install("testing")\<close> passes the tag check, and so does \<open>install("v1.2.3")\<close> when
  \<open>semver.valid\<close> accepts \<open>1.2.3\<close>, and with no operation running both start an install
  operation on that tag. In general the tag check of install passes exactly for a
  trimmed tag of at most 128 characters that matches \<open>[A-Za-z0-9][A-Za-z0-9_.-]*\<close> and
  is \<open>testing\<close>, or \<open>v\<close> followed by a string that \<open>semver.valid\<close> accepts, or one of the
  canonical local tags.
\<close>

theorem tag_allow_list:
  "installOrSync sv ''../etc'' st s = Inl INVALID_TAG \<and>
   installOrSync sv ''a:b'' st s = Inl INVALID_TAG \<and>
   installOrSync sv ''v1.0.0; rm -rf'' st s = Inl INVALID_TAG \<and>
   assertTagAllowedForInstall sv ''testing'' = Inr ''testing'' \<and>
   (sv ''1.2.3'' \<longrightarrow> assertTagAllowedForInstall sv ''v1.2.3'' = Inr ''v1.2.3'') \<and>
   (currentOperation s = None \<longrightarrow>
      (\<exists>s'. installOrSync sv ''testing'' st s = Inr (fresh_id st, s') \<and>
         (\<exists>c. currentOperation s' = Some c \<and> optype c = Install \<and> status c = Running \<and>
              targetVersionTag c = Some ''testing''))) \<and>
   (currentOperation s = None \<and> sv ''1.2.3'' \<longrightarrow>
      (\<exists>s'. installOrSync sv ''v1.2.3'' st s = Inr (fresh_id st, s') \<and>
         (\<exists>c. currentOperation s' = Some c \<and> optype c = Install \<and> status c = Running \<and>
              targetVersionTag c = Some ''v1.2.3''))) \<and>
   (\<forall>tag t. assertTagAllowedForInstall sv tag = Inr t \<longleftrightarrow>
      t = trim tag \<and> t \<noteq> [] \<and> length t \<le> 128 \<and> is_alnum (hd t) \<and> list_all is_name_char (tl t) \<and>
      (t = ''testing'' \<or> (\<exists>r. t = CHR ''v'' # r \<and> sv r) \<or> t \<in> set CANONICAL_LOCAL_TAGS))"
proof -
  have a: "currentOperation s = None \<longrightarrow>
      (\<exists>s'. installOrSync sv ''testing'' st s = Inr (fresh_id st, s') \<and>
         (\<exists>c. currentOperation s' = Some c \<and> optype c = Install \<and> status c = Running \<and>
              targetVersionTag c = Some ''testing''))"
    using installOrSync_idle [OF install_accepts_testing, of s sv st] by simp
  have b: "currentOperation s = None \<and> sv ''1.2.3'' \<longrightarrow>
      (\<exists>s'. installOrSync sv ''v1.2.3'' st s = Inr (fresh_id st, s') \<and>
         (\<exists>c. currentOperation s' = Some c \<and> optype c = Install \<and> status c = Running \<and>
              targetVersionTag c = Some ''v1.2.3''))"
    using installOrSync_idle [OF install_accepts_release, of sv s st] by simp
  show ?thesis
    using a b install_accepts_iff [of sv]
    by (simp add: installOrSync_invalid install_rejects_examples install_accepts_testing
        install_accepts_release)
qed

theorem tag_allow_list_witness:
  "semver_core ''1.2.3'' \<and> currentOperation initial = None \<and>
   assertTagAllowedForInstall semver_core ''v1.2.3'' = Inr ''v1.2.3'' \<and>
   (\<exists>s'. installOrSync semver_core ''v1.2.3'' \<lparr>fresh_id = ''op_1'', now_iso = ''t0''\<rparr> initial
            = Inr (''op_1'', s')) \<and>
   (\<exists>s'. installOrSync semver_core ''testing'' \<lparr>fresh_id = ''op_1'', now_iso = ''t0''\<rparr> initial
            = Inr (''op_1'', s')) \<and>
   assertTagAllowedForInstall semver_core ''local'' = Inr ''local''"
proof -
  have sv: "semver_core ''1.2.3''"
    by (simp add: semver_core_def numeric_id_def is_digit_def)
  have idle: "currentOperation initial = None"
    by (simp add: initial_def)
  have loc: "assertTagAllowedForInstall semver_core ''local'' = Inr ''local''"
    using tag_allow_list [of semver_core "\<lparr>fresh_id = ''op_1'', now_iso = ''t0''\<rparr>" initial]
    by (simp add: trim_def js_space_def is_alnum_def is_name_char_def is_upper_def is_lower_def
        is_digit_def CANONICAL_LOCAL_TAGS_def)
  show ?thesis
    using sv idle loc
      tag_allow_list [of semver_core "\<lparr>fresh_id = ''op_1'', now_iso = ''t0''\<rparr>" initial]
    by auto
qed

section \<open>Proofs: the single-flight rule\<close>

lemma latest_opId: "latest evs i = Some c \<Longrightarrow> opId c = i"
  by (induction evs) (auto split: if_splits)

lemma inv_replace:
  assumes "single_flight_inv s"
    and "\<And>c. currentOperation s = Some c \<Longrightarrow> status c = Running \<Longrightarrow> opId c = opId c'"
  shows "single_flight_inv (emit_progress (s\<lparr>currentOperation := Some c'\<rparr>))"
  unfolding single_flight_inv_def
proof (intro allI impI)
  fix i c
  assume h: "latest (emitted (emit_progress (s\<lparr>currentOperation := Some c'\<rparr>))) i = Some c
               \<and> status c = Running"
  show "currentOperation (emit_progress (s\<lparr>currentOperation := Some c'\<rparr>)) = Some c"
  proof (cases "opId c' = i")
    case True
    with h show ?thesis by (simp add: emit_progress_def)
  next
    case False
    with h have l: "latest (emitted s) i = Some c" and r: "status c = Running"
      by (simp_all add: emit_progress_def)
    with assms(1) have cur: "currentOperation s = Some c"
      by (auto simp: single_flight_inv_def)
    from l have "opId c = i" by (rule latest_opId)
    with assms(2) [OF cur r] False show ?thesis by simp
  qed
qed

lemma inv_begin:
  "single_flight_inv s \<Longrightarrow> beginOperation ty tgt st s = Inr (i, s') \<Longrightarrow> single_flight_inv s'"
  by (auto simp: beginOperation_def requireNoRunningOperation_def Let_def
      split: sum.splits option.splits if_splits intro!: inv_replace)

lemma inv_start_call:
  "single_flight_inv s \<Longrightarrow> single_flight_inv (state_after (start_call sv c st s) s)"
  by (cases c)
    (auto simp: state_after_def installOrSync_def stopActiveInstance_def startActiveInstance_def
      deleteRetainedInstance_def updateToLatest_def activateRetainedInstance_def activateVersion_def
      bind_err_def split: sum.splits dest: inv_begin)

lemma inv_step:
  assumes "single_flight_inv s"
  shows "single_flight_inv (step sv s a)"
proof (cases a)
  case (Do_call c st)
  with assms show ?thesis by (simp add: inv_start_call)
next
  case (Do_update p)
  with assms show ?thesis
    by (auto simp: updateOperationProgress_def apply_patch_def split: option.splits
        intro!: inv_replace)
next
  case (Do_set_target t)
  with assms show ?thesis
    by (auto simp: setTargetVersionTag_def split: option.splits intro!: inv_replace)
next
  case (Do_finish t m n)
  with assms show ?thesis
    by (auto simp: finishOperation_def split: option.splits intro!: inv_replace)
qed

lemma inv_foldl: "single_flight_inv s \<Longrightarrow> single_flight_inv (foldl (step sv) s acts)"
  by (induction acts arbitrary: s) (simp_all add: inv_step)

lemma inv_run: "single_flight_inv (run sv acts)"
  unfolding run_def by (rule inv_foldl) (simp add: single_flight_inv_def initial_def)

lemma inv_running_ids:
  assumes "single_flight_inv s"
  shows "length (running_ids (emitted s)) \<le> 1"
proof -
  have eq: "i = j"
    if "i \<in> set (running_ids (emitted s))" "j \<in> set (running_ids (emitted s))" for i j
  proof -
    from that obtain c d where h: "latest (emitted s) i = Some c" "status c = Running"
        "latest (emitted s) j = Some d" "status d = Running"
      by (auto simp: running_ids_def is_running_id_def split: option.splits)
    from assms h(1,2) have c: "currentOperation s = Some c"
      unfolding single_flight_inv_def by blast
    from assms h(3,4) have d: "currentOperation s = Some d"
      unfolding single_flight_inv_def by blast
    from h(1) have "opId c = i" by (rule latest_opId)
    moreover from h(3) have "opId d = j" by (rule latest_opId)
    ultimately show "i = j" using c d by simp
  qed
  have d: "distinct (running_ids (emitted s))"
    by (simp add: running_ids_def)
  show ?thesis
  proof (cases "running_ids (emitted s)")
    case Nil
    then show ?thesis by simp
  next
    case (Cons x xs)
    note outer = this
    show ?thesis
    proof (cases xs)
      case Nil
      with outer show ?thesis by simp
    next
      case (Cons y ys)
      with outer eq [of x y] d show ?thesis by auto
    qed
  qed
qed

lemma running_blocks:
  assumes "currentOperation s = Some a" "status a = Running"
  shows "state_after (start_call sv c st s) s = s"
    and "\<exists>e. start_call sv c st s = Inl e"
    and "(\<exists>r. start_call sv c st initial = Inr r) \<longrightarrow> start_call sv c st s = Inl OP_IN_PROGRESS"
  using assms
  by (cases c;
      auto simp: state_after_def installOrSync_def stopActiveInstance_def startActiveInstance_def
      deleteRetainedInstance_def updateToLatest_def activateRetainedInstance_def activateVersion_def
      bind_err_def requireNoRunningOperation_def beginOperation_def initial_def split: sum.splits)+

text \<open>
  Claim C1. While an operation \<open>a\<close> is \<open>running\<close>, each of the seven operation-starting
  calls throws and leaves the module state, hence the record of \<open>a\<close>, as it was; a call
  whose arguments would start an operation when nothing runs throws \<open>OP_IN_PROGRESS\<close>.
  After every sequence of calls and of updates by the operation bodies, at most one
  operation id has \<open>running\<close> as its newest emitted status.
\<close>

theorem single_flight:
  "(currentOperation s = Some a \<and> status a = Running \<longrightarrow>
      state_after (start_call sv c st s) s = s \<and>
      currentOperation (state_after (start_call sv c st s) s) = Some a \<and>
      (\<exists>e. start_call sv c st s = Inl e) \<and>
      ((\<exists>r. start_call sv c st initial = Inr r) \<longrightarrow> start_call sv c st s = Inl OP_IN_PROGRESS)) \<and>
   length (running_ids (emitted (run sv acts))) \<le> 1"
  using running_blocks [of s a sv c st] inv_running_ids [OF inv_run, of sv acts]
  by auto

theorem single_flight_witness:
  "(\<exists>a. currentOperation (run semver_core [Do_call (Call_install ''testing'') \<lparr>fresh_id = ''op_1'', now_iso = ''t0''\<rparr>]) = Some a
        \<and> status a = Running \<and> opId a = ''op_1'') \<and>
   (\<exists>r. start_call semver_core (Call_update ''has_backup'') \<lparr>fresh_id = ''op_2'', now_iso = ''t1''\<rparr> initial = Inr r) \<and>
   start_call semver_core (Call_update ''has_backup'') \<lparr>fresh_id = ''op_2'', now_iso = ''t1''\<rparr>
     (run semver_core [Do_call (Call_install ''testing'') \<lparr>fresh_id = ''op_1'', now_iso = ''t0''\<rparr>])
     = Inl OP_IN_PROGRESS \<and>
   run semver_core [Do_call (Call_install ''testing'') \<lparr>fresh_id = ''op_1'', now_iso = ''t0''\<rparr>,
                    Do_call (Call_update ''has_backup'') \<lparr>fresh_id = ''op_2'', now_iso = ''t1''\<rparr>]
     = run semver_core [Do_call (Call_install ''testing'') \<lparr>fresh_id = ''op_1'', now_iso = ''t0''\<rparr>]"
proof -
  let ?st1 = "\<lparr>fresh_id = ''op_1'', now_iso = ''t0''\<rparr>"
  let ?st2 = "\<lparr>fresh_id = ''op_2'', now_iso = ''t1''\<rparr>"
  let ?s = "run semver_core [Do_call (Call_install ''testing'') ?st1]"
  let ?a = "\<lparr>opId = ''op_1'', optype = Install, status = Running, startedAt = ''t0'',
             finishedAt = None, targetVersionTag = Some ''testing'', progress = None,
             downloadProgress = None, extractProgress = None, message = None, error = None\<rparr>"
  have cur: "currentOperation ?s = Some ?a"
    by (simp add: run_def initial_def state_after_def installOrSync_def bind_err_def
        install_accepts_testing requireNoRunningOperation_def beginOperation_def
        emit_progress_def Let_def)
  have run2: "status ?a = Running" "opId ?a = ''op_1''"
    by simp_all
  have idle: "\<exists>r. start_call semver_core (Call_update ''has_backup'') ?st2 initial = Inr r"
    by (simp add: updateToLatest_def bind_err_def assertDataLossAck_def trim_def js_space_def
        requireNoRunningOperation_def beginOperation_def initial_def Let_def)
  from single_flight [of ?s ?a semver_core "Call_update ''has_backup''" ?st2 "[]"] cur run2 idle
  have blocked: "start_call semver_core (Call_update ''has_backup'') ?st2 ?s = Inl OP_IN_PROGRESS"
    and same: "state_after (start_call semver_core (Call_update ''has_backup'') ?st2 ?s) ?s = ?s"
    by blast+
  have "run semver_core [Do_call (Call_install ''testing'') ?st1,
          Do_call (Call_update ''has_backup'') ?st2] = ?s"
    using same by (simp add: run_def)
  with cur run2 idle blocked show ?thesis by blast
qed


section \<open>Proofs: retention policy and port preferences\<close>

lemma clampKeepCount_range: "0 \<le> clampKeepCount x \<and> clampKeepCount x \<le> 20"
  by (simp add: clampKeepCount_def)

lemma clampKeepCount_idem: "clampKeepCount (of_int (clampKeepCount x)) = clampKeepCount x"
  by (simp add: clampKeepCount_def)

lemma require_cases:
  "requireNoRunningOperation s = Inr () \<or> requireNoRunningOperation s = Inl OP_IN_PROGRESS"
  by (simp add: requireNoRunningOperation_def split: option.splits)

lemma writeRetentionPolicy_clamped:
  "writeRetentionPolicy sn (JNum (Finite (of_int (clampKeepCount x)))) now w f
     = (case readJson f of
          Inl e \<Rightarrow> (Inl e, f)
        | Inr state \<Rightarrow>
            (case w of
               Write_ok \<Rightarrow>
                 (Inr \<lparr>keepCount = clampKeepCount x\<rparr>,
                  Content (state\<lparr>retentionPolicy := Some \<lparr>keepCount = clampKeepCount x\<rparr>,
                                 updatedAt := Some now\<rparr>))
             | Write_fails e f' \<Rightarrow> (Inl e, f')))"
  by (simp add: writeRetentionPolicy_def writeJson_def Let_def clampKeepCount_idem
      split: sum.splits write_outcome.splits)

lemma setRetentionPolicy_busy:
  "requireNoRunningOperation s \<noteq> Inr () \<Longrightarrow>
     setRetentionPolicy sn refresh now w v s f = (Inl OP_IN_PROGRESS, f)"
  using require_cases [of s] by (auto simp: setRetentionPolicy_def)

lemma setRetentionPolicy_invalid:
  "requireNoRunningOperation s = Inr () \<Longrightarrow> \<not> isFinite (to_number sn v) \<Longrightarrow>
     setRetentionPolicy sn refresh now w v s f = (Inl INVALID_RETENTION_POLICY, f)"
  by (simp add: setRetentionPolicy_def assertKeepCount_def)

lemma setRetentionPolicy_unreadable:
  "requireNoRunningOperation s = Inr () \<Longrightarrow> isFinite (to_number sn v) \<Longrightarrow> readJson f = Inl e \<Longrightarrow>
     setRetentionPolicy sn refresh now w v s f = (Inl e, f)"
  by (simp add: setRetentionPolicy_def assertKeepCount_def writeRetentionPolicy_clamped)

lemma setRetentionPolicy_write_fails:
  "requireNoRunningOperation s = Inr () \<Longrightarrow> isFinite (to_number sn v) \<Longrightarrow> readJson f = Inr state \<Longrightarrow>
     setRetentionPolicy sn refresh now (Write_fails e f') v s f = (Inl e, f')"
  by (simp add: setRetentionPolicy_def assertKeepCount_def writeRetentionPolicy_clamped)

lemma setRetentionPolicy_written:
  "requireNoRunningOperation s = Inr () \<Longrightarrow> isFinite (to_number sn v) \<Longrightarrow> readJson f = Inr state \<Longrightarrow>
     setRetentionPolicy sn refresh now Write_ok v s f
       = (case refresh of
            None \<Rightarrow> Inr \<lparr>keepCount = max 0 (min 20 \<lfloor>the_real (to_number sn v)\<rfloor>)\<rparr>
          | Some e \<Rightarrow> Inl e,
          Content (state\<lparr>retentionPolicy :=
                     Some \<lparr>keepCount = max 0 (min 20 \<lfloor>the_real (to_number sn v)\<rfloor>)\<rparr>,
                   updatedAt := Some now\<rparr>))"
  by (simp add: setRetentionPolicy_def assertKeepCount_def writeRetentionPolicy_clamped
      split: option.splits) (simp add: clampKeepCount_def)

text \<open>
  Claim C10, amended. With no operation running, \<open>setRetentionPolicy\<close> on a value \<open>v\<close>
  whose \<open>Number(v)\<close> is finite never rejects the value: it clamps it to
  \<open>keepCount = max(0, min(20, floor(Number(v))))\<close> and reads \<open>state.json\<close>. When the file
  is absent or holds JSON and the write succeeds, that \<open>keepCount\<close> is in the file, the
  other fields kept, and the call returns it if the state refresh that follows succeeds
  (if the refresh throws, the call rejects with that error, the policy being written
  already). When the file cannot be read the call rejects with the read error and writes
  nothing; when the write fails it rejects with the write error. On a value whose
  \<open>Number(v)\<close> is not finite it rejects with \<open>INVALID_RETENTION_POLICY\<close> and touches no
  file. While an operation is running it rejects with \<open>OP_IN_PROGRESS\<close> and touches no
  file.
\<close>

theorem keepCount_clamping:
  "(requireNoRunningOperation s = Inr () \<and> isFinite (to_number sn v) \<and> readJson f = Inr state \<longrightarrow>
      setRetentionPolicy sn refresh now Write_ok v s f
        = (case refresh of
             None \<Rightarrow> Inr \<lparr>keepCount = max 0 (min 20 \<lfloor>the_real (to_number sn v)\<rfloor>)\<rparr>
           | Some e \<Rightarrow> Inl e,
           Content (state\<lparr>retentionPolicy :=
                      Some \<lparr>keepCount = max 0 (min 20 \<lfloor>the_real (to_number sn v)\<rfloor>)\<rparr>,
                    updatedAt := Some now\<rparr>)) \<and>
      setRetentionPolicy sn refresh now (Write_fails e f') v s f = (Inl e, f')) \<and>
   (requireNoRunningOperation s = Inr () \<and> isFinite (to_number sn v) \<and> readJson f = Inl e \<longrightarrow>
      setRetentionPolicy sn refresh now w v s f = (Inl e, f)) \<and>
   (requireNoRunningOperation s = Inr () \<and> \<not> isFinite (to_number sn v) \<longrightarrow>
      setRetentionPolicy sn refresh now w v s f = (Inl INVALID_RETENTION_POLICY, f)) \<and>
   (requireNoRunningOperation s \<noteq> Inr () \<longrightarrow>
      setRetentionPolicy sn refresh now w v s f = (Inl OP_IN_PROGRESS, f))"
  using setRetentionPolicy_written [of s sn v f state refresh now]
    setRetentionPolicy_write_fails [of s sn v f state refresh now e f']
    setRetentionPolicy_unreadable [of s sn v f e refresh now w]
    setRetentionPolicy_invalid [of s sn v refresh now w f]
    setRetentionPolicy_busy [of s sn refresh now w v f]
  by blast


theorem keepCount_clamping_witness:
  "requireNoRunningOperation initial = Inr () \<and>
   readJson Absent = Inr empty_state \<and>
   readJson (Unreadable (RUNTIME_ERROR ''EACCES'')) = Inl (RUNTIME_ERROR ''EACCES'') \<and>
   setRetentionPolicy (\<lambda>s. NaN) None ''t1'' Write_ok (JNum (Finite (73/2))) initial Absent
     = (Inr \<lparr>keepCount = 20\<rparr>,
        Content \<lparr>retentionPolicy = Some \<lparr>keepCount = 20\<rparr>, portPreferences = None,
                 updatedAt = Some ''t1''\<rparr>) \<and>
   setRetentionPolicy (\<lambda>s. NaN) None ''t1'' Write_ok (JNum (Finite (-3))) initial Absent
     = (Inr \<lparr>keepCount = 0\<rparr>,
        Content \<lparr>retentionPolicy = Some \<lparr>keepCount = 0\<rparr>, portPreferences = None,
                 updatedAt = Some ''t1''\<rparr>) \<and>
   setRetentionPolicy (\<lambda>s. NaN) (Some RUNTIME_UNAVAILABLE) ''t1'' Write_ok (JNum (Finite 3)) initial Absent
     = (Inl RUNTIME_UNAVAILABLE,
        Content \<lparr>retentionPolicy = Some \<lparr>keepCount = 3\<rparr>, portPreferences = None,
                 updatedAt = Some ''t1''\<rparr>) \<and>
   setRetentionPolicy (\<lambda>s. NaN) None ''t1'' (Write_fails (RUNTIME_ERROR ''ENOSPC'') Absent)
       (JNum (Finite 3)) initial Absent
     = (Inl (RUNTIME_ERROR ''ENOSPC''), Absent) \<and>
   setRetentionPolicy (\<lambda>s. NaN) None ''t1'' Write_ok (JNum (Finite 3)) initial
       (Unreadable (RUNTIME_ERROR ''EACCES''))
     = (Inl (RUNTIME_ERROR ''EACCES''), Unreadable (RUNTIME_ERROR ''EACCES'')) \<and>
   setRetentionPolicy (\<lambda>s. NaN) None ''t1'' Write_ok (JStr ''many'') initial Absent
     = (Inl INVALID_RETENTION_POLICY, Absent) \<and>
   requireNoRunningOperation busy \<noteq> Inr () \<and>
   setRetentionPolicy (\<lambda>s. NaN) None ''t1'' Write_ok (JNum (Finite 7)) busy Absent
     = (Inl OP_IN_PROGRESS, Absent)"
proof -
  have idle: "requireNoRunningOperation initial = Inr ()"
    by (simp add: requireNoRunningOperation_def initial_def)
  have run: "requireNoRunningOperation busy \<noteq> Inr ()"
    by (simp add: requireNoRunningOperation_def busy_def)
  have r0: "readJson Absent = Inr empty_state"
    by (simp add: readJson_def)
  have r1: "readJson (Unreadable (RUNTIME_ERROR ''EACCES'')) = Inl (RUNTIME_ERROR ''EACCES'')"
    by (simp add: readJson_def)
  have a: "setRetentionPolicy (\<lambda>s. NaN) None ''t1'' Write_ok (JNum (Finite (73/2))) initial Absent
     = (Inr \<lparr>keepCount = 20\<rparr>,
        Content \<lparr>retentionPolicy = Some \<lparr>keepCount = 20\<rparr>, portPreferences = None,
                 updatedAt = Some ''t1''\<rparr>)"
    using idle r0 keepCount_clamping [where s = initial and sn = "\<lambda>s. NaN"
        and v = "JNum (Finite (73/2))" and f = Absent and state = empty_state and refresh = None
        and now = "''t1''"]
    by (simp add: empty_state_def)
  have b: "setRetentionPolicy (\<lambda>s. NaN) None ''t1'' Write_ok (JNum (Finite (-3))) initial Absent
     = (Inr \<lparr>keepCount = 0\<rparr>,
        Content \<lparr>retentionPolicy = Some \<lparr>keepCount = 0\<rparr>, portPreferences = None,
                 updatedAt = Some ''t1''\<rparr>)"
    using idle r0 keepCount_clamping [where s = initial and sn = "\<lambda>s. NaN"
        and v = "JNum (Finite (-3))" and f = Absent and state = empty_state and refresh = None
        and now = "''t1''"]
    by (simp add: empty_state_def)
  have c: "setRetentionPolicy (\<lambda>s. NaN) (Some RUNTIME_UNAVAILABLE) ''t1'' Write_ok (JNum (Finite 3)) initial Absent
     = (Inl RUNTIME_UNAVAILABLE,
        Content \<lparr>retentionPolicy = Some \<lparr>keepCount = 3\<rparr>, portPreferences = None,
                 updatedAt = Some ''t1''\<rparr>)"
    using idle r0 keepCount_clamping [where s = initial and sn = "\<lambda>s. NaN"
        and v = "JNum (Finite 3)" and f = Absent and state = empty_state
        and refresh = "Some RUNTIME_UNAVAILABLE" and now = "''t1''"]
    by (simp add: empty_state_def)
  have d: "setRetentionPolicy (\<lambda>s. NaN) None ''t1'' (Write_fails (RUNTIME_ERROR ''ENOSPC'') Absent)
       (JNum (Finite 3)) initial Absent
     = (Inl (RUNTIME_ERROR ''ENOSPC''), Absent)"
    using idle r0 keepCount_clamping [where s = initial and sn = "\<lambda>s. NaN"
        and v = "JNum (Finite 3)" and f = Absent and state = empty_state and refresh = None
        and now = "''t1''" and e = "RUNTIME_ERROR ''ENOSPC''" and f' = Absent]
    by simp
  have e: "setRetentionPolicy (\<lambda>s. NaN) None ''t1'' Write_ok (JNum (Finite 3)) initial
       (Unreadable (RUNTIME_ERROR ''EACCES''))
     = (Inl (RUNTIME_ERROR ''EACCES''), Unreadable (RUNTIME_ERROR ''EACCES''))"
    using idle r1 keepCount_clamping [where s = initial and sn = "\<lambda>s. NaN"
        and v = "JNum (Finite 3)" and f = "Unreadable (RUNTIME_ERROR ''EACCES'')"
        and refresh = None and now = "''t1''" and e = "RUNTIME_ERROR ''EACCES''" and w = Write_ok]
    by simp
  have g: "setRetentionPolicy (\<lambda>s. NaN) None ''t1'' Write_ok (JStr ''many'') initial Absent
     = (Inl INVALID_RETENTION_POLICY, Absent)"
    using idle keepCount_clamping [where s = initial and sn = "\<lambda>s. NaN"
        and v = "JStr ''many''" and f = Absent and refresh = None and now = "''t1''" and w = Write_ok]
    by simp
  have h: "setRetentionPolicy (\<lambda>s. NaN) None ''t1'' Write_ok (JNum (Finite 7)) busy Absent
     = (Inl OP_IN_PROGRESS, Absent)"
    using run keepCount_clamping [where s = busy and sn = "\<lambda>s. NaN"
        and v = "JNum (Finite 7)" and f = Absent and refresh = None and now = "''t1''" and w = Write_ok]
    by simp
  from idle run r0 r1 a b c d e g h show ?thesis by simp
qed

text \<open>
  Claim C10, as stated, fails: a finite \<open>keepCount\<close> is rejected while an operation is
  running. Here \<open>setRetentionPolicy(5)\<close> throws \<open>OP_IN_PROGRESS\<close> and writes nothing.
\<close>

theorem keepCount_clamping_counterexample:
  "setRetentionPolicy (\<lambda>s. NaN) None ''2024-01-01T00:00:01.000Z'' Write_ok (JNum (Finite 5)) busy Absent
     = (Inl OP_IN_PROGRESS, Absent)"
  by (simp add: setRetentionPolicy_def requireNoRunningOperation_def busy_def)

lemma normalizePort_range:
  "1 \<le> fb \<Longrightarrow> fb \<le> 65535 \<Longrightarrow> 1 \<le> normalizePort sn v fb \<and> normalizePort sn v fb \<le> 65535"
  by (auto simp: normalizePort_def Let_def)

lemma normalizePort_eq:
  "normalizePort sn v fb =
      (if isFinite (to_number sn v) \<and> 1 \<le> \<lfloor>the_real (to_number sn v)\<rfloor>
            \<and> \<lfloor>the_real (to_number sn v)\<rfloor> \<le> 65535
       then \<lfloor>the_real (to_number sn v)\<rfloor> else fb)"
  by (auto simp: normalizePort_def Let_def)

lemma writePortPreferences_equal:
  "normalizePort sn ui_in 8880 = normalizePort sn ssh_in 55022 \<Longrightarrow>
     writePortPreferences sn ui_in ssh_in now w f = (Inl INVALID_PORT_PREFERENCES, f)"
  by (simp add: writePortPreferences_def DEFAULT_PORT_PREFERENCES_def isDistinctPorts_def)

lemma writePortPreferences_distinct:
  "normalizePort sn ui_in 8880 \<noteq> normalizePort sn ssh_in 55022 \<Longrightarrow>
     writePortPreferences sn ui_in ssh_in now w f
       = (case readJson f of
            Inl e \<Rightarrow> (Inl e, f)
          | Inr state \<Rightarrow>
              (case w of
                 Write_ok \<Rightarrow>
                   (Inr \<lparr>ui = normalizePort sn ui_in 8880, ssh = normalizePort sn ssh_in 55022\<rparr>,
                    Content (state\<lparr>portPreferences :=
                               Some \<lparr>ui = normalizePort sn ui_in 8880,
                                     ssh = normalizePort sn ssh_in 55022\<rparr>,
                             updatedAt := Some now\<rparr>))
               | Write_fails e f' \<Rightarrow> (Inl e, f')))"
  by (simp add: writePortPreferences_def DEFAULT_PORT_PREFERENCES_def isDistinctPorts_def Let_def
      writeJson_def split: sum.splits write_outcome.splits)

lemma setPortPreferences_busy:
  "requireNoRunningOperation s \<noteq> Inr () \<Longrightarrow>
     setPortPreferences sn refresh now w ui_in ssh_in s f = (Inl OP_IN_PROGRESS, f)"
  using require_cases [of s] by (auto simp: setPortPreferences_def)

lemma setPortPreferences_equal:
  "requireNoRunningOperation s = Inr () \<Longrightarrow>
   normalizePort sn ui_in 8880 = normalizePort sn ssh_in 55022 \<Longrightarrow>
     setPortPreferences sn refresh now w ui_in ssh_in s f = (Inl INVALID_PORT_PREFERENCES, f)"
  by (simp add: setPortPreferences_def writePortPreferences_equal)

lemma setPortPreferences_unreadable:
  "requireNoRunningOperation s = Inr () \<Longrightarrow>
   normalizePort sn ui_in 8880 \<noteq> normalizePort sn ssh_in 55022 \<Longrightarrow> readJson f = Inl e \<Longrightarrow>
     setPortPreferences sn refresh now w ui_in ssh_in s f = (Inl e, f)"
  by (simp add: setPortPreferences_def writePortPreferences_distinct)

lemma setPortPreferences_write_fails:
  "requireNoRunningOperation s = Inr () \<Longrightarrow>
   normalizePort sn ui_in 8880 \<noteq> normalizePort sn ssh_in 55022 \<Longrightarrow> readJson f = Inr state \<Longrightarrow>
     setPortPreferences sn refresh now (Write_fails e f') ui_in ssh_in s f = (Inl e, f')"
  by (simp add: setPortPreferences_def writePortPreferences_distinct)

lemma setPortPreferences_written:
  "requireNoRunningOperation s = Inr () \<Longrightarrow>
   normalizePort sn ui_in 8880 \<noteq> normalizePort sn ssh_in 55022 \<Longrightarrow> readJson f = Inr state \<Longrightarrow>
     setPortPreferences sn refresh now Write_ok ui_in ssh_in s f
       = (case refresh of
            None \<Rightarrow> Inr \<lparr>ui = normalizePort sn ui_in 8880, ssh = normalizePort sn ssh_in 55022\<rparr>
          | Some e \<Rightarrow> Inl e,
          Content (state\<lparr>portPreferences :=
                     Some \<lparr>ui = normalizePort sn ui_in 8880, ssh = normalizePort sn ssh_in 55022\<rparr>,
                   updatedAt := Some now\<rparr>))"
  by (simp add: setPortPreferences_def writePortPreferences_distinct split: option.splits)

lemma setPortPreferences_result:
  assumes "setPortPreferences sn refresh now w ui_in ssh_in s f = (Inr p, f')"
  shows "p = \<lparr>ui = normalizePort sn ui_in 8880, ssh = normalizePort sn ssh_in 55022\<rparr> \<and>
         ui p \<noteq> ssh p \<and> 1 \<le> ui p \<and> ui p \<le> 65535 \<and> 1 \<le> ssh p \<and> ssh p \<le> 65535"
proof -
  have r1: "1 \<le> normalizePort sn ui_in 8880 \<and> normalizePort sn ui_in 8880 \<le> 65535"
    by (rule normalizePort_range) simp_all
  have r2: "1 \<le> normalizePort sn ssh_in 55022 \<and> normalizePort sn ssh_in 55022 \<le> 65535"
    by (rule normalizePort_range) simp_all
  have idle: "requireNoRunningOperation s = Inr ()"
    using assms setPortPreferences_busy [of s sn refresh now w ui_in ssh_in f] by auto
  have ne: "normalizePort sn ui_in 8880 \<noteq> normalizePort sn ssh_in 55022"
    using assms setPortPreferences_equal [OF idle, of sn ui_in ssh_in refresh now w f] by auto
  from assms idle have "p = \<lparr>ui = normalizePort sn ui_in 8880, ssh = normalizePort sn ssh_in 55022\<rparr>"
    by (simp add: setPortPreferences_def writePortPreferences_distinct [OF ne]
        split: sum.splits write_outcome.splits option.splits)
  with r1 r2 ne show ?thesis by simp
qed


text \<open>
  Claim C7, amended. With no operation running, \<open>setPortPreferences\<close> turns each of
  \<open>ui\<close> and \<open>ssh\<close> into \<open>floor(Number(v))\<close> when \<open>Number(v)\<close> is finite and that floor
  lies in 1 to 65535, and into its default (8880 and 55022) otherwise. It rejects with
  \<open>INVALID_PORT_PREFERENCES\<close>, touching no file, exactly when the two resulting ports
  are equal. Otherwise it reads \<open>state.json\<close>: when that cannot be read it rejects with
  the read error and writes nothing; when the write fails it rejects with the write
  error; when the write succeeds both ports are in the file through that one write,
  the other fields kept, and the call returns them if the state refresh that follows
  succeeds. What it returns is two distinct ports in the range 1 to 65535. While an
  operation is running it rejects with \<open>OP_IN_PROGRESS\<close> and writes nothing.
\<close>

theorem port_preferences:
  "(requireNoRunningOperation s = Inr () \<and>
    normalizePort sn ui_in 8880 = normalizePort sn ssh_in 55022 \<longrightarrow>
      setPortPreferences sn refresh now w ui_in ssh_in s f = (Inl INVALID_PORT_PREFERENCES, f)) \<and>
   (requireNoRunningOperation s = Inr () \<and>
    normalizePort sn ui_in 8880 \<noteq> normalizePort sn ssh_in 55022 \<and> readJson f = Inr state \<longrightarrow>
      setPortPreferences sn refresh now Write_ok ui_in ssh_in s f
        = (case refresh of
             None \<Rightarrow> Inr \<lparr>ui = normalizePort sn ui_in 8880, ssh = normalizePort sn ssh_in 55022\<rparr>
           | Some e \<Rightarrow> Inl e,
           Content (state\<lparr>portPreferences :=
                      Some \<lparr>ui = normalizePort sn ui_in 8880, ssh = normalizePort sn ssh_in 55022\<rparr>,
                    updatedAt := Some now\<rparr>)) \<and>
      setPortPreferences sn refresh now (Write_fails e f') ui_in ssh_in s f = (Inl e, f')) \<and>
   (requireNoRunningOperation s = Inr () \<and>
    normalizePort sn ui_in 8880 \<noteq> normalizePort sn ssh_in 55022 \<and> readJson f = Inl e \<longrightarrow>
      setPortPreferences sn refresh now w ui_in ssh_in s f = (Inl e, f)) \<and>
   (requireNoRunningOperation s \<noteq> Inr () \<longrightarrow>
      setPortPreferences sn refresh now w ui_in ssh_in s f = (Inl OP_IN_PROGRESS, f)) \<and>
   (\<forall>p g. setPortPreferences sn refresh now w ui_in ssh_in s f = (Inr p, g) \<longrightarrow>
      p = \<lparr>ui = normalizePort sn ui_in 8880, ssh = normalizePort sn ssh_in 55022\<rparr> \<and>
      ui p \<noteq> ssh p \<and> 1 \<le> ui p \<and> ui p \<le> 65535 \<and> 1 \<le> ssh p \<and> ssh p \<le> 65535) \<and>
   (\<forall>v fb. normalizePort sn v fb =
      (if isFinite (to_number sn v) \<and> 1 \<le> \<lfloor>the_real (to_number sn v)\<rfloor>
            \<and> \<lfloor>the_real (to_number sn v)\<rfloor> \<le> 65535
       then \<lfloor>the_real (to_number sn v)\<rfloor> else fb))"
  using setPortPreferences_equal [of s sn ui_in ssh_in refresh now w f]
    setPortPreferences_written [of s sn ui_in ssh_in f state refresh now]
    setPortPreferences_write_fails [of s sn ui_in ssh_in f state refresh now e f']
    setPortPreferences_unreadable [of s sn ui_in ssh_in f e refresh now w]
    setPortPreferences_busy [of s sn refresh now w ui_in ssh_in f]
    setPortPreferences_result [of sn refresh now w ui_in ssh_in s f]
    normalizePort_eq [of sn]
  by blast

text \<open>
  Claim C7, as stated, fails: an out-of-range port is not rejected. With \<open>ui = 0\<close> and
  \<open>ssh = 22\<close> the call succeeds, and the default \<open>ui\<close> port 8880 is written with 22.
\<close>

theorem port_preferences_counterexample:
  "setPortPreferences (\<lambda>s. NaN) None ''t1'' Write_ok (JNum (Finite 0)) (JNum (Finite 22)) initial Absent
     = (Inr \<lparr>ui = 8880, ssh = 22\<rparr>,
        Content \<lparr>retentionPolicy = None, portPreferences = Some \<lparr>ui = 8880, ssh = 22\<rparr>,
                 updatedAt = Some ''t1''\<rparr>)"
  by (simp add: setPortPreferences_def requireNoRunningOperation_def initial_def
      writePortPreferences_def normalizePort_def DEFAULT_PORT_PREFERENCES_def
      isDistinctPorts_def readJson_def writeJson_def empty_state_def Let_def)

theorem port_preferences_witness:
  "requireNoRunningOperation initial = Inr () \<and>
   readJson Absent = Inr empty_state \<and>
   readJson (Unreadable (RUNTIME_ERROR ''EACCES'')) = Inl (RUNTIME_ERROR ''EACCES'') \<and>
   normalizePort (\<lambda>s. NaN) (JNum (Finite 8080)) 8880 = 8080 \<and>
   normalizePort (\<lambda>s. NaN) (JNum (Finite (131071/2))) 55022 = 65535 \<and>
   normalizePort (\<lambda>s. NaN) (JBool True) 55022 = 1 \<and>
   normalizePort (\<lambda>s. NaN) (JStr ''http'') 8880 = 8880 \<and>
   normalizePort (\<lambda>s. NaN) (JNum (Finite 70000)) 55022 = 55022 \<and>
   setPortPreferences (\<lambda>s. NaN) None ''t1'' Write_ok (JNum (Finite 8080)) (JNum (Finite 8080)) initial Absent
     = (Inl INVALID_PORT_PREFERENCES, Absent) \<and>
   setPortPreferences (\<lambda>s. NaN) None ''t1'' Write_ok (JNum (Finite 8080)) (JNum (Finite (45/2))) initial Absent
     = (Inr \<lparr>ui = 8080, ssh = 22\<rparr>,
        Content \<lparr>retentionPolicy = None, portPreferences = Some \<lparr>ui = 8080, ssh = 22\<rparr>,
                 updatedAt = Some ''t1''\<rparr>) \<and>
   setPortPreferences (\<lambda>s. NaN) None ''t1'' Write_ok (JStr ''http'') (JNum (Finite 70000)) initial Absent
     = (Inr \<lparr>ui = 8880, ssh = 55022\<rparr>,
        Content \<lparr>retentionPolicy = None, portPreferences = Some \<lparr>ui = 8880, ssh = 55022\<rparr>,
                 updatedAt = Some ''t1''\<rparr>) \<and>
   setPortPreferences (\<lambda>s. NaN) None ''t1'' (Write_fails (RUNTIME_ERROR ''ENOSPC'') Absent)
       (JNum (Finite 8080)) (JNum (Finite 22)) initial Absent
     = (Inl (RUNTIME_ERROR ''ENOSPC''), Absent) \<and>
   setPortPreferences (\<lambda>s. NaN) None ''t1'' Write_ok (JNum (Finite 8080)) (JNum (Finite 22)) initial
       (Unreadable (RUNTIME_ERROR ''EACCES''))
     = (Inl (RUNTIME_ERROR ''EACCES''), Unreadable (RUNTIME_ERROR ''EACCES'')) \<and>
   requireNoRunningOperation busy \<noteq> Inr () \<and>
   setPortPreferences (\<lambda>s. NaN) None ''t1'' Write_ok (JNum (Finite 8080)) (JNum (Finite 22)) busy Absent
     = (Inl OP_IN_PROGRESS, Absent)"
proof -
  have idle: "requireNoRunningOperation initial = Inr ()"
    by (simp add: requireNoRunningOperation_def initial_def)
  have run: "requireNoRunningOperation busy \<noteq> Inr ()"
    by (simp add: requireNoRunningOperation_def busy_def)
  have r0: "readJson Absent = Inr empty_state"
    by (simp add: readJson_def)
  have r1: "readJson (Unreadable (RUNTIME_ERROR ''EACCES'')) = Inl (RUNTIME_ERROR ''EACCES'')"
    by (simp add: readJson_def)
  note pp = port_preferences [where sn = "\<lambda>s. NaN" and now = "''t1''" and refresh = None]
  have n: "normalizePort (\<lambda>s. NaN) (JNum (Finite 8080)) 8880 = 8080"
    "normalizePort (\<lambda>s. NaN) (JNum (Finite (131071/2))) 55022 = 65535"
    "normalizePort (\<lambda>s. NaN) (JBool True) 55022 = 1"
    "normalizePort (\<lambda>s. NaN) (JStr ''http'') 8880 = 8880"
    "normalizePort (\<lambda>s. NaN) (JNum (Finite 70000)) 55022 = 55022"
    "normalizePort (\<lambda>s. NaN) (JNum (Finite 22)) 55022 = 22"
    "normalizePort (\<lambda>s. NaN) (JNum (Finite (45/2))) 55022 = 22"
    "normalizePort (\<lambda>s. NaN) (JNum (Finite 8080)) 55022 = 8080"
    using pp by simp_all
  have a: "setPortPreferences (\<lambda>s. NaN) None ''t1'' Write_ok (JNum (Finite 8080)) (JNum (Finite 8080)) initial Absent
     = (Inl INVALID_PORT_PREFERENCES, Absent)"
    using idle n pp [where s = initial and ui_in = "JNum (Finite 8080)" and ssh_in = "JNum (Finite 8080)"
        and f = Absent and w = Write_ok]
    by simp
  have b: "setPortPreferences (\<lambda>s. NaN) None ''t1'' Write_ok (JNum (Finite 8080)) (JNum (Finite (45/2))) initial Absent
     = (Inr \<lparr>ui = 8080, ssh = 22\<rparr>,
        Content \<lparr>retentionPolicy = None, portPreferences = Some \<lparr>ui = 8080, ssh = 22\<rparr>,
                 updatedAt = Some ''t1''\<rparr>)"
    using idle r0 n pp [where s = initial and ui_in = "JNum (Finite 8080)" and ssh_in = "JNum (Finite (45/2))"
        and f = Absent and state = empty_state]
    by (simp add: empty_state_def)
  have c: "setPortPreferences (\<lambda>s. NaN) None ''t1'' Write_ok (JStr ''http'') (JNum (Finite 70000)) initial Absent
     = (Inr \<lparr>ui = 8880, ssh = 55022\<rparr>,
        Content \<lparr>retentionPolicy = None, portPreferences = Some \<lparr>ui = 8880, ssh = 55022\<rparr>,
                 updatedAt = Some ''t1''\<rparr>)"
    using idle r0 n pp [where s = initial and ui_in = "JStr ''http''" and ssh_in = "JNum (Finite 70000)"
        and f = Absent and state = empty_state]
    by (simp add: empty_state_def)
  have d: "setPortPreferences (\<lambda>s. NaN) None ''t1'' (Write_fails (RUNTIME_ERROR ''ENOSPC'') Absent)
       (JNum (Finite 8080)) (JNum (Finite 22)) initial Absent
     = (Inl (RUNTIME_ERROR ''ENOSPC''), Absent)"
    using idle r0 n pp [where s = initial and ui_in = "JNum (Finite 8080)" and ssh_in = "JNum (Finite 22)"
        and f = Absent and state = empty_state and e = "RUNTIME_ERROR ''ENOSPC''" and f' = Absent]
    by simp
  have e: "setPortPreferences (\<lambda>s. NaN) None ''t1'' Write_ok (JNum (Finite 8080)) (JNum (Finite 22)) initial
       (Unreadable (RUNTIME_ERROR ''EACCES''))
     = (Inl (RUNTIME_ERROR ''EACCES''), Unreadable (RUNTIME_ERROR ''EACCES''))"
    using idle r1 n pp [where s = initial and ui_in = "JNum (Finite 8080)" and ssh_in = "JNum (Finite 22)"
        and f = "Unreadable (RUNTIME_ERROR ''EACCES'')" and e = "RUNTIME_ERROR ''EACCES''" and w = Write_ok]
    by simp
  have g: "setPortPreferences (\<lambda>s. NaN) None ''t1'' Write_ok (JNum (Finite 8080)) (JNum (Finite 22)) busy Absent
     = (Inl OP_IN_PROGRESS, Absent)"
    using run pp [where s = busy and ui_in = "JNum (Finite 8080)" and ssh_in = "JNum (Finite 22)"
        and f = Absent and w = Write_ok]
    by simp
  from idle run r0 r1 n(1-5) a b c d e g show ?thesis by simp
qed

section \<open>Proofs: registry pagination\<close>

lemma loop_over_bound:
  "page > 2000 \<Longrightarrow> listTags_loop reg url page tags rl n = Inl REGISTRY_PAGINATION_ERROR"
  by (simp add: listTags_loop.simps)

lemma loop_throw:
  "page \<le> 2000 \<Longrightarrow> fetch_page reg url tags rl n = Throw e \<Longrightarrow>
     listTags_loop reg url page tags rl n = Inl e"
  by (simp add: listTags_loop.simps [of reg url page])

lemma loop_break:
  "page \<le> 2000 \<Longrightarrow> fetch_page reg url tags rl n = Break tags' rl' \<Longrightarrow>
     listTags_loop reg url page tags rl n = Inr (sort (remdups tags'), rl')"
  by (simp add: listTags_loop.simps [of reg url page])

lemma loop_continue:
  "page \<le> 2000 \<Longrightarrow> fetch_page reg url tags rl n = Continue url' tags' rl' n' \<Longrightarrow>
     listTags_loop reg url page tags rl n = listTags_loop reg url' (page + 1) tags' rl' n'"
  by (simp add: listTags_loop.simps [of reg url page])

lemma res_ok_not_401: "res_ok res \<Longrightarrow> res_status res \<noteq> 401"
  by (simp add: res_ok_def)

lemma fetch_page_first:
  assumes "get_token reg n False = Inr tok" "fetch reg (n + 1) url tok = Inr res" "res_ok res"
  shows "fetch_page reg url tags rl n = take_page url tags (or_rate (res_rateLimit res) rl) (n + 2) res"
  using assms res_ok_not_401 [OF assms(3)] by (simp add: fetch_page_def Let_def)

lemma fetch_page_retry:
  assumes "get_token reg n False = Inr tok" "fetch reg (n + 1) url tok = Inr res"
    "res_status res = 401" "get_token reg (n + 2) True = Inr fresh"
    "fetch reg (n + 3) url fresh = Inr res2" "res_ok res2"
  shows "fetch_page reg url tags rl n
    = take_page url tags (or_rate (res_rateLimit res2) (or_rate (res_rateLimit res) rl)) (n + 4) res2"
  using assms by (simp add: fetch_page_def Let_def)

lemma take_page_same:
  "res_tags res = Some ts \<Longrightarrow> res_next res = Some url \<Longrightarrow>
     take_page url tags rl n res = Throw REGISTRY_PAGINATION_ERROR"
  by (simp add: take_page_def)

lemma take_page_next:
  "res_tags res = Some ts \<Longrightarrow> res_next res = Some nl \<Longrightarrow> nl \<noteq> url \<Longrightarrow>
     take_page url tags rl n res = Continue nl (tags @ ts) rl n"
  by (simp add: take_page_def)

lemma take_page_last:
  "res_tags res = Some ts \<Longrightarrow> res_next res = None \<Longrightarrow>
     take_page url tags rl n res = Break (tags @ ts) rl"
  by (simp add: take_page_def)

lemma loop_endless:
  assumes adv: "\<And>url tags rl n. \<exists>url' tags' rl' n'. fetch_page reg url tags rl n = Continue url' tags' rl' n'"
  shows "listTags_loop reg url page tags rl n = Inl REGISTRY_PAGINATION_ERROR"
proof (induction "2001 - page" arbitrary: page url tags rl n)
  case 0
  then have "page > 2000" by simp
  then show ?case by (rule loop_over_bound)
next
  case (Suc k)
  then have le: "page \<le> 2000" and k: "k = 2001 - (page + 1)" by simp_all
  from adv obtain url' tags' rl' n' where c: "fetch_page reg url tags rl n = Continue url' tags' rl' n'"
    by blast
  from Suc.hyps(1) [OF k] loop_continue [OF le c] show ?case by simp
qed

lemma endless_advances:
  "\<exists>url' tags' rl' n'. fetch_page endless url tags rl n = Continue url' tags' rl' n'"
  by (simp add: endless_def fetch_page_def take_page_def res_ok_def Let_def)

lemma listTags_nonempty:
  "trim imageRepo \<noteq> [] \<Longrightarrow>
     listTags reg b imageRepo = listTags_loop reg (b (trim imageRepo)) 0 [] None 0"
  by (simp add: listTags_def Let_def)

lemma listTags_empty: "trim imageRepo = [] \<Longrightarrow> listTags reg b imageRepo = Inl INVALID_INPUT"
  by (simp add: listTags_def Let_def)

lemma serves_page:
  assumes "serves reg tok resp" "res_ok (resp u)"
  shows "fetch_page reg u tags rl n = take_page u tags (or_rate (res_rateLimit (resp u)) rl) (n + 2) (resp u)"
  using assms by (intro fetch_page_first [where tok = tok]) (simp_all add: serves_def)

text \<open>A listing of at most \<open>2001 - page\<close> pages is read to its end.\<close>

lemma loop_listing:
  "serves reg tok resp \<Longrightarrow> listing resp us \<Longrightarrow> page + length us \<le> 2001 \<Longrightarrow>
     listTags_loop reg (hd us) page tags rl n
       = Inr (sort (remdups (tags @ concat (map (page_tags resp) us))),
              foldl (\<lambda>r u. or_rate (res_rateLimit (resp u)) r) rl us)"
proof (induction resp us arbitrary: page tags rl n rule: listing.induct)
  case (1 resp)
  then show ?case by simp
next
  case (2 resp u)
  then have sv: "serves reg tok resp" and ok: "res_ok (resp u)" and nx: "res_next (resp u) = None"
    and le: "page \<le> 2000"
    by simp_all
  from 2 obtain ts where ts: "res_tags (resp u) = Some ts" by auto
  then have pt: "page_tags resp u = ts" by (simp add: page_tags_def)
  have "fetch_page reg u tags rl n = Break (tags @ ts) (or_rate (res_rateLimit (resp u)) rl)"
    using serves_page [OF sv ok] take_page_last [OF ts nx] by simp
  from loop_break [OF le this] pt show ?case
    by simp
next
  case (3 resp u v us)
  then have sv: "serves reg tok resp" and ok: "res_ok (resp u)"
    and nx: "res_next (resp u) = Some v" and ne: "v \<noteq> u"
    and rest: "listing resp (v # us)" and le: "page \<le> 2000"
    and len: "(page + 1) + length (v # us) \<le> 2001"
    by simp_all
  from 3 obtain ts where ts: "res_tags (resp u) = Some ts" by auto
  then have pt: "page_tags resp u = ts" by (simp add: page_tags_def)
  have "fetch_page reg u tags rl n
      = Continue v (tags @ ts) (or_rate (res_rateLimit (resp u)) rl) (n + 2)"
    using serves_page [OF sv ok] take_page_next [OF ts nx ne] by simp
  from loop_continue [OF le this]
  have "listTags_loop reg u page tags rl n
      = listTags_loop reg (hd (v # us)) (page + 1) (tags @ ts) (or_rate (res_rateLimit (resp u)) rl) (n + 2)"
    by simp
  also have "\<dots> = Inr (sort (remdups ((tags @ ts) @ concat (map (page_tags resp) (v # us)))),
              foldl (\<lambda>r u. or_rate (res_rateLimit (resp u)) r) (or_rate (res_rateLimit (resp u)) rl) (v # us))"
    by (rule "3.IH" [OF sv rest len])
  finally show ?case using pt by simp
qed

text \<open>A longer listing is cut off by the page bound.\<close>

lemma loop_listing_long:
  "serves reg tok resp \<Longrightarrow> listing resp us \<Longrightarrow> page + length us > 2001 \<Longrightarrow>
     listTags_loop reg (hd us) page tags rl n = Inl REGISTRY_PAGINATION_ERROR"
proof (induction resp us arbitrary: page tags rl n rule: listing.induct)
  case (1 resp)
  then show ?case by simp
next
  case (2 resp u)
  then have "page > 2000" by simp
  then show ?case by (rule loop_over_bound)
next
  case (3 resp u v us)
  show ?case
  proof (cases "page > 2000")
    case True
    then show ?thesis by (rule loop_over_bound)
  next
    case False
    then have le: "page \<le> 2000" by simp
    from 3 have sv: "serves reg tok resp" and ok: "res_ok (resp u)"
      and nx: "res_next (resp u) = Some v" and ne: "v \<noteq> u"
      and rest: "listing resp (v # us)" and len: "(page + 1) + length (v # us) > 2001"
      by simp_all
    from 3 obtain ts where ts: "res_tags (resp u) = Some ts" by auto
    have "fetch_page reg u tags rl n
        = Continue v (tags @ ts) (or_rate (res_rateLimit (resp u)) rl) (n + 2)"
      using serves_page [OF sv ok] take_page_next [OF ts nx ne] by simp
    from loop_continue [OF le this]
    have "listTags_loop reg u page tags rl n
        = listTags_loop reg (hd (v # us)) (page + 1) (tags @ ts) (or_rate (res_rateLimit (resp u)) rl) (n + 2)"
      by simp
    also have "\<dots> = Inl REGISTRY_PAGINATION_ERROR"
      by (rule "3.IH" [OF sv rest len])
    finally show ?thesis by simp
  qed
qed


lemma turn_first:
  assumes "page \<le> 2000" "get_token reg n False = Inr tok" "fetch reg (n + 1) url tok = Inr res"
    "res_ok res" "res_tags res = Some ts"
  shows "listTags_loop reg url page tags rl n =
       (case res_next res of
          None \<Rightarrow> Inr (sort (remdups (tags @ ts)), or_rate (res_rateLimit res) rl)
        | Some nl \<Rightarrow>
            if nl = url then Inl REGISTRY_PAGINATION_ERROR
            else listTags_loop reg nl (page + 1) (tags @ ts) (or_rate (res_rateLimit res) rl) (n + 2))"
proof (cases "res_next res")
  case None
  from loop_break [OF assms(1)] fetch_page_first [OF assms(2,3,4)] take_page_last [OF assms(5) None]
  show ?thesis using None by simp
next
  case (Some nl)
  show ?thesis
  proof (cases "nl = url")
    case True
    with Some have "res_next res = Some url" by simp
    from loop_throw [OF assms(1)] fetch_page_first [OF assms(2,3,4)] take_page_same [OF assms(5) this]
    show ?thesis using Some True by simp
  next
    case False
    from loop_continue [OF assms(1)] fetch_page_first [OF assms(2,3,4)]
      take_page_next [OF assms(5) Some False]
    show ?thesis using Some False by simp
  qed
qed

lemma turn_retry:
  assumes "page \<le> 2000" "get_token reg n False = Inr tok" "fetch reg (n + 1) url tok = Inr res"
    "res_status res = 401" "get_token reg (n + 2) True = Inr fresh"
    "fetch reg (n + 3) url fresh = Inr res2" "res_ok res2" "res_tags res2 = Some ts"
  shows "listTags_loop reg url page tags rl n =
       (case res_next res2 of
          None \<Rightarrow> Inr (sort (remdups (tags @ ts)),
                       or_rate (res_rateLimit res2) (or_rate (res_rateLimit res) rl))
        | Some nl \<Rightarrow>
            if nl = url then Inl REGISTRY_PAGINATION_ERROR
            else listTags_loop reg nl (page + 1) (tags @ ts)
                   (or_rate (res_rateLimit res2) (or_rate (res_rateLimit res) rl)) (n + 4))"
proof (cases "res_next res2")
  case None
  from loop_break [OF assms(1)] fetch_page_retry [OF assms(2-7)] take_page_last [OF assms(8) None]
  show ?thesis using None by simp
next
  case (Some nl)
  show ?thesis
  proof (cases "nl = url")
    case True
    with Some have "res_next res2 = Some url" by simp
    from loop_throw [OF assms(1)] fetch_page_retry [OF assms(2-7)] take_page_same [OF assms(8) this]
    show ?thesis using Some True by simp
  next
    case False
    from loop_continue [OF assms(1)] fetch_page_retry [OF assms(2-7)]
      take_page_next [OF assms(8) Some False]
    show ?thesis using Some False by simp
  qed
qed

lemma listTags_listing:
  assumes "serves reg tok resp" "listing resp us" "trim imageRepo \<noteq> []"
    "hd us = b (trim imageRepo)"
  shows "listTags reg b imageRepo =
       (if length us \<le> 2001
        then Inr (sort (remdups (concat (map (page_tags resp) us))),
                  foldl (\<lambda>r u. or_rate (res_rateLimit (resp u)) r) None us)
        else Inl REGISTRY_PAGINATION_ERROR)"
proof (cases "length us \<le> 2001")
  case True
  with loop_listing [OF assms(1,2), of 0 "[]" None 0] assms(3,4) show ?thesis
    by (simp add: listTags_nonempty)
next
  case False
  with loop_listing_long [OF assms(1,2), of 0 "[]" None 0] assms(3,4) show ?thesis
    by (simp add: listTags_nonempty)
qed

text \<open>
  Claim C8. \<open>listTags\<close> terminates on every registry: its loop is a total function, each
  turn of which either ends the loop or raises the page counter, and a counter above
  2000 ends it with \<open>REGISTRY_PAGINATION_ERROR\<close>. A turn whose page (the first answer, or
  the answer to the retry after a 401) carries tags does one of three things: without a
  next link it returns the tags collected, without duplicates and sorted; with a next
  link equal to the URL just fetched it throws \<open>REGISTRY_PAGINATION_ERROR\<close>; with
  another next link it goes on from that link with the counter raised by one. So a
  listing whose pages link to one another and end is read to its last page when it has
  at most 2001 pages, and gets \<open>REGISTRY_PAGINATION_ERROR\<close> when it has more; and a
  registry whose every page advances to another one gets \<open>REGISTRY_PAGINATION_ERROR\<close>
  and not an endless loop.
\<close>

theorem pagination_terminates:
  "(page > 2000 \<longrightarrow> listTags_loop reg url page tags rl n = Inl REGISTRY_PAGINATION_ERROR) \<and>
   (page \<le> 2000 \<and> get_token reg n False = Inr tok \<and> fetch reg (n + 1) url tok = Inr res \<and>
    res_ok res \<and> res_tags res = Some ts \<longrightarrow>
      listTags_loop reg url page tags rl n =
        (case res_next res of
           None \<Rightarrow> Inr (sort (remdups (tags @ ts)), or_rate (res_rateLimit res) rl)
         | Some nl \<Rightarrow>
             if nl = url then Inl REGISTRY_PAGINATION_ERROR
             else listTags_loop reg nl (page + 1) (tags @ ts) (or_rate (res_rateLimit res) rl) (n + 2))) \<and>
   (page \<le> 2000 \<and> get_token reg n False = Inr tok \<and> fetch reg (n + 1) url tok = Inr res \<and>
    res_status res = 401 \<and> get_token reg (n + 2) True = Inr fresh \<and>
    fetch reg (n + 3) url fresh = Inr res2 \<and> res_ok res2 \<and> res_tags res2 = Some ts \<longrightarrow>
      listTags_loop reg url page tags rl n =
        (case res_next res2 of
           None \<Rightarrow> Inr (sort (remdups (tags @ ts)),
                        or_rate (res_rateLimit res2) (or_rate (res_rateLimit res) rl))
         | Some nl \<Rightarrow>
             if nl = url then Inl REGISTRY_PAGINATION_ERROR
             else listTags_loop reg nl (page + 1) (tags @ ts)
                    (or_rate (res_rateLimit res2) (or_rate (res_rateLimit res) rl)) (n + 4))) \<and>
   (serves reg tok resp \<and> listing resp us \<and> trim imageRepo \<noteq> [] \<and>
    hd us = buildTagsListUrl (trim imageRepo) \<longrightarrow>
      listTags reg buildTagsListUrl imageRepo =
        (if length us \<le> 2001
         then Inr (sort (remdups (concat (map (page_tags resp) us))),
                   foldl (\<lambda>r u. or_rate (res_rateLimit (resp u)) r) None us)
         else Inl REGISTRY_PAGINATION_ERROR)) \<and>
   ((\<forall>u t r k. \<exists>u' t' r' k'. fetch_page reg u t r k = Continue u' t' r' k') \<longrightarrow>
      listTags_loop reg url page tags rl n = Inl REGISTRY_PAGINATION_ERROR \<and>
      (trim imageRepo \<noteq> [] \<longrightarrow>
         listTags reg buildTagsListUrl imageRepo = Inl REGISTRY_PAGINATION_ERROR)) \<and>
   listTags reg buildTagsListUrl imageRepo =
     (if trim imageRepo = [] then Inl INVALID_INPUT
      else listTags_loop reg (buildTagsListUrl (trim imageRepo)) 0 [] None 0)"
proof (intro conjI impI)
  assume "page > 2000"
  then show "listTags_loop reg url page tags rl n = Inl REGISTRY_PAGINATION_ERROR"
    by (rule loop_over_bound)
next
  assume h: "page \<le> 2000 \<and> get_token reg n False = Inr tok \<and> fetch reg (n + 1) url tok = Inr res \<and>
    res_ok res \<and> res_tags res = Some ts"
  then show "listTags_loop reg url page tags rl n =
        (case res_next res of
           None \<Rightarrow> Inr (sort (remdups (tags @ ts)), or_rate (res_rateLimit res) rl)
         | Some nl \<Rightarrow>
             if nl = url then Inl REGISTRY_PAGINATION_ERROR
             else listTags_loop reg nl (page + 1) (tags @ ts) (or_rate (res_rateLimit res) rl) (n + 2))"
    by (intro turn_first [where tok = tok]) simp_all
next
  assume h: "page \<le> 2000 \<and> get_token reg n False = Inr tok \<and> fetch reg (n + 1) url tok = Inr res \<and>
    res_status res = 401 \<and> get_token reg (n + 2) True = Inr fresh \<and>
    fetch reg (n + 3) url fresh = Inr res2 \<and> res_ok res2 \<and> res_tags res2 = Some ts"
  then show "listTags_loop reg url page tags rl n =
        (case res_next res2 of
           None \<Rightarrow> Inr (sort (remdups (tags @ ts)),
                        or_rate (res_rateLimit res2) (or_rate (res_rateLimit res) rl))
         | Some nl \<Rightarrow>
             if nl = url then Inl REGISTRY_PAGINATION_ERROR
             else listTags_loop reg nl (page + 1) (tags @ ts)
                    (or_rate (res_rateLimit res2) (or_rate (res_rateLimit res) rl)) (n + 4))"
    by (intro turn_retry [where tok = tok and fresh = fresh]) simp_all
next
  assume h: "serves reg tok resp \<and> listing resp us \<and> trim imageRepo \<noteq> [] \<and>
    hd us = buildTagsListUrl (trim imageRepo)"
  then show "listTags reg buildTagsListUrl imageRepo =
        (if length us \<le> 2001
         then Inr (sort (remdups (concat (map (page_tags resp) us))),
                   foldl (\<lambda>r u. or_rate (res_rateLimit (resp u)) r) None us)
         else Inl REGISTRY_PAGINATION_ERROR)"
    by (intro listTags_listing [where tok = tok]) simp_all
next
  assume h: "\<forall>u t r k. \<exists>u' t' r' k'. fetch_page reg u t r k = Continue u' t' r' k'"
  then show "listTags_loop reg url page tags rl n = Inl REGISTRY_PAGINATION_ERROR"
    by (intro loop_endless) blast
next
  assume h: "\<forall>u t r k. \<exists>u' t' r' k'. fetch_page reg u t r k = Continue u' t' r' k'"
    and ne: "trim imageRepo \<noteq> []"
  from h have "listTags_loop reg (buildTagsListUrl (trim imageRepo)) 0 [] None 0
      = Inl REGISTRY_PAGINATION_ERROR"
    by (intro loop_endless) blast
  with ne show "listTags reg buildTagsListUrl imageRepo = Inl REGISTRY_PAGINATION_ERROR"
    by (simp add: listTags_nonempty)
next
  show "listTags reg buildTagsListUrl imageRepo =
     (if trim imageRepo = [] then Inl INVALID_INPUT
      else listTags_loop reg (buildTagsListUrl (trim imageRepo)) 0 [] None 0)"
    by (simp add: listTags_def Let_def)
qed


theorem pagination_terminates_witness:
  "listTags_loop stuck ''u'' 2001 [] None 0 = Inl REGISTRY_PAGINATION_ERROR \<and>
   listTags_loop stuck ''u'' 0 [] None 0 = Inl REGISTRY_PAGINATION_ERROR \<and>
   listTags_loop expired ''u'' 0 [] None 0 = Inl REGISTRY_PAGINATION_ERROR \<and>
   serves two_pages ''token'' two_pages_resp \<and>
   listing two_pages_resp [first_url ''agent0ai/agent-zero'', second_url] \<and>
   listTags_loop two_pages (first_url ''agent0ai/agent-zero'') 0 [] None 0
     = listTags_loop two_pages second_url 1 [''v0.9.8'', ''testing''] None 2 \<and>
   listTags two_pages first_url ''  agent0ai/agent-zero ''
     = Inr ([''latest'', ''testing'', ''v0.9.8''], Some some_rate) \<and>
   (\<forall>u t r k. \<exists>u' t' r' k'. fetch_page endless u t r k = Continue u' t' r' k') \<and>
   listTags endless first_url ''agent0ai/agent-zero'' = Inl REGISTRY_PAGINATION_ERROR \<and>
   listTags two_pages first_url ''   '' = Inl INVALID_INPUT"
proof -
  let ?r200 = "\<lparr>res_status = 200, res_rateLimit = None, res_tags = Some [''v1''], res_next = Some ''u''\<rparr>"
  let ?r401 = "\<lparr>res_status = 401, res_rateLimit = None, res_tags = None, res_next = None\<rparr>"
  let ?U = "first_url ''agent0ai/agent-zero''"
  have a: "listTags_loop stuck ''u'' 2001 [] None 0 = Inl REGISTRY_PAGINATION_ERROR"
    using pagination_terminates [where page = 2001 and reg = stuck and url = "''u''" and tags = "[]"
        and rl = None and n = 0]
    by simp
  have b: "listTags_loop stuck ''u'' 0 [] None 0 = Inl REGISTRY_PAGINATION_ERROR"
    using pagination_terminates [where page = 0 and reg = stuck and url = "''u''" and tags = "[]"
        and rl = None and n = 0 and tok = "''token''" and res = ?r200 and ts = "[''v1'']"]
    by (simp add: stuck_def res_ok_def)
  have c: "listTags_loop expired ''u'' 0 [] None 0 = Inl REGISTRY_PAGINATION_ERROR"
    using pagination_terminates [where page = 0 and reg = expired and url = "''u''" and tags = "[]"
        and rl = None and n = 0 and tok = "''stale''" and res = ?r401 and fresh = "''fresh''"
        and ?res2.0 = ?r200 and ts = "[''v1'']"]
    by (simp add: expired_def res_ok_def)
  have ne: "second_url \<noteq> ?U"
    by (simp add: second_url_def)
  have sv: "serves two_pages ''token'' two_pages_resp"
    by (simp add: serves_def two_pages_def)
  have li: "listing two_pages_resp [?U, second_url]"
    using ne by (simp add: two_pages_resp_def res_ok_def)
  have tr: "trim ''  agent0ai/agent-zero '' = ''agent0ai/agent-zero''"
    by (simp add: trim_def js_space_def)
  have d: "listTags_loop two_pages ?U 0 [] None 0
     = listTags_loop two_pages second_url 1 [''v0.9.8'', ''testing''] None 2"
    using ne pagination_terminates [where page = 0 and reg = two_pages and url = ?U
        and tags = "[]" and rl = None and n = 0 and tok = "''token''"
        and res = "two_pages_resp ?U" and ts = "[''v0.9.8'', ''testing'']",
        THEN conjunct2, THEN conjunct1]
    by (simp add: two_pages_def two_pages_resp_def res_ok_def or_rate_def numeral_2_eq_2)
  have e: "listTags two_pages first_url ''  agent0ai/agent-zero ''
     = Inr ([''latest'', ''testing'', ''v0.9.8''], Some some_rate)"
    using ne sv li tr pagination_terminates [where reg = two_pages and tok = "''token''"
        and resp = two_pages_resp and us = "[?U, second_url]"
        and imageRepo = "''  agent0ai/agent-zero ''" and buildTagsListUrl = first_url]
    by (simp add: page_tags_def two_pages_resp_def or_rate_def)
  have f: "\<forall>u t r k. \<exists>u' t' r' k'. fetch_page endless u t r k = Continue u' t' r' k'"
    by (simp add: endless_advances)
  have g: "listTags endless first_url ''agent0ai/agent-zero'' = Inl REGISTRY_PAGINATION_ERROR"
    using f pagination_terminates [where reg = endless and imageRepo = "''agent0ai/agent-zero''"
        and buildTagsListUrl = first_url]
    by (simp add: trim_def js_space_def)
  have h: "listTags two_pages first_url ''   '' = Inl INVALID_INPUT"
    using pagination_terminates [where reg = two_pages and imageRepo = "''   ''"
        and buildTagsListUrl = first_url]
    by (simp add: trim_def js_space_def)
  from a b c sv li d e f g h show ?thesis by blast
qed

section \<open>Proofs: pull progress\<close>

lemma non_null_Cons:
  "non_null (x # xs) = (case x of None \<Rightarrow> non_null xs | Some v \<Rightarrow> v # non_null xs)"
  by (simp add: non_null_def List.map_filter_simps split: option.splits)

lemma non_null_Nil: "non_null [] = []"
  by (simp add: non_null_def List.map_filter_simps)

lemma freeze_last: "lastDlPercent (freeze pre now ps) = lastDlPercent ps"
  "lastXPercent (freeze pre now ps) = lastXPercent ps"
  by (simp_all add: freeze_def Let_def)

lemma seed_layer_last: "lastDlPercent (seed_layer pre k now ps) = lastDlPercent ps"
  "lastXPercent (seed_layer pre k now ps) = lastXPercent ps"
  by (simp_all add: seed_layer_def Let_def)

lemma absorb_last: "lastDlPercent (absorb pre ps ev) = lastDlPercent ps"
  "lastXPercent (absorb pre ps ev) = lastXPercent ps"
  by (simp_all add: absorb_def Let_def freeze_last seed_layer_last split: option.splits)

lemma percent_range:
  "percent (computeTotals ps k) = Some p \<Longrightarrow> 0 \<le> p \<and> p \<le> 100"
  by (auto simp: computeTotals_def Let_def split: prod.splits if_splits)

lemma handle_event_dl:
  "pe_downloadProgress (snd (handle_event pre ps ev))
     = map_option (max (lastDlPercent ps)) (percent (computeTotals (absorb pre ps ev) Dl))"
  "lastDlPercent (fst (handle_event pre ps ev))
     = (case percent (computeTotals (absorb pre ps ev) Dl) of
          None \<Rightarrow> lastDlPercent ps | Some p \<Rightarrow> max (lastDlPercent ps) p)"
  by (simp_all add: handle_event_def Let_def clamp_report_def absorb_last
      split: option.splits prod.splits)

lemma handle_event_x:
  "pe_extractProgress (snd (handle_event pre ps ev))
     = map_option (max (lastXPercent ps)) (percent (computeTotals (absorb pre ps ev) X))"
  "lastXPercent (fst (handle_event pre ps ev))
     = (case percent (computeTotals (absorb pre ps ev) X) of
          None \<Rightarrow> lastXPercent ps | Some p \<Rightarrow> max (lastXPercent ps) p)"
  by (simp_all add: handle_event_def Let_def clamp_report_def absorb_last
      split: option.splits prod.splits)

lemma follow_Cons:
  "follow pre ps (ev # evs) = snd (handle_event pre ps ev) # follow pre (fst (handle_event pre ps ev)) evs"
  by (simp add: split_def Let_def)

lemma follow_dl:
  "0 \<le> lastDlPercent ps \<Longrightarrow> lastDlPercent ps \<le> 100 \<Longrightarrow>
   sorted (non_null (map pe_downloadProgress (follow pre ps evs))) \<and>
   list_all (\<lambda>v. lastDlPercent ps \<le> v \<and> v \<le> 100) (non_null (map pe_downloadProgress (follow pre ps evs)))"
proof (induction evs arbitrary: ps)
  case Nil
  then show ?case by (simp add: non_null_Nil)
next
  case (Cons ev evs)
  let ?ps' = "fst (handle_event pre ps ev)"
  show ?case
  proof (cases "percent (computeTotals (absorb pre ps ev) Dl)")
    case None
    then have l: "lastDlPercent ?ps' = lastDlPercent ps" and o: "pe_downloadProgress (snd (handle_event pre ps ev)) = None"
      by (simp_all add: handle_event_dl)
    from Cons.IH [of ?ps'] Cons.prems l o show ?thesis
      by (simp add: non_null_Cons del: follow.simps add: follow_Cons)
  next
    case (Some p)
    then have l: "lastDlPercent ?ps' = max (lastDlPercent ps) p"
      and o: "pe_downloadProgress (snd (handle_event pre ps ev)) = Some (max (lastDlPercent ps) p)"
      by (simp_all add: handle_event_dl)
    from percent_range [OF Some] Cons.prems have r: "0 \<le> max (lastDlPercent ps) p" "max (lastDlPercent ps) p \<le> 100"
      by simp_all
    from Cons.IH [of ?ps'] r l
    have ih: "sorted (non_null (map pe_downloadProgress (follow pre ?ps' evs)))"
      "list_all (\<lambda>v. max (lastDlPercent ps) p \<le> v \<and> v \<le> 100) (non_null (map pe_downloadProgress (follow pre ?ps' evs)))"
      by simp_all
    from ih(2) have ge: "list_all (\<lambda>v. lastDlPercent ps \<le> v \<and> v \<le> 100) (non_null (map pe_downloadProgress (follow pre ?ps' evs)))"
      by (auto simp: list_all_iff)
    from ih o r ge show ?thesis
      by (auto simp del: follow.simps simp add: follow_Cons non_null_Cons list_all_iff)
  qed
qed

lemma follow_x:
  "0 \<le> lastXPercent ps \<Longrightarrow> lastXPercent ps \<le> 100 \<Longrightarrow>
   sorted (non_null (map pe_extractProgress (follow pre ps evs))) \<and>
   list_all (\<lambda>v. lastXPercent ps \<le> v \<and> v \<le> 100) (non_null (map pe_extractProgress (follow pre ps evs)))"
proof (induction evs arbitrary: ps)
  case Nil
  then show ?case by (simp add: non_null_Nil)
next
  case (Cons ev evs)
  let ?ps' = "fst (handle_event pre ps ev)"
  show ?case
  proof (cases "percent (computeTotals (absorb pre ps ev) X)")
    case None
    then have l: "lastXPercent ?ps' = lastXPercent ps" and o: "pe_extractProgress (snd (handle_event pre ps ev)) = None"
      by (simp_all add: handle_event_x)
    from Cons.IH [of ?ps'] Cons.prems l o show ?thesis
      by (simp add: non_null_Cons del: follow.simps add: follow_Cons)
  next
    case (Some p)
    then have l: "lastXPercent ?ps' = max (lastXPercent ps) p"
      and o: "pe_extractProgress (snd (handle_event pre ps ev)) = Some (max (lastXPercent ps) p)"
      by (simp_all add: handle_event_x)
    from percent_range [OF Some] Cons.prems have r: "0 \<le> max (lastXPercent ps) p" "max (lastXPercent ps) p \<le> 100"
      by simp_all
    from Cons.IH [of ?ps'] r l
    have ih: "sorted (non_null (map pe_extractProgress (follow pre ?ps' evs)))"
      "list_all (\<lambda>v. max (lastXPercent ps) p \<le> v \<and> v \<le> 100) (non_null (map pe_extractProgress (follow pre ?ps' evs)))"
      by simp_all
    from ih(2) have ge: "list_all (\<lambda>v. lastXPercent ps \<le> v \<and> v \<le> 100) (non_null (map pe_extractProgress (follow pre ?ps' evs)))"
      by (auto simp: list_all_iff)
    from ih o r ge show ?thesis
      by (auto simp del: follow.simps simp add: follow_Cons non_null_Cons list_all_iff)
  qed
qed

lemma init_pull_last: "lastDlPercent (init_pull now pre) = 0" "lastXPercent (init_pull now pre) = 0"
  by (simp_all add: init_pull_def Let_def split: option.splits)

lemma non_null_append: "non_null (xs @ ys) = non_null xs @ non_null ys"
  by (induction xs) (simp_all add: non_null_Cons non_null_Nil split: option.splits)

lemma non_null_replicate_None: "non_null (replicate k None) = []"
  by (induction k) (simp_all add: non_null_Cons non_null_Nil)

lemma non_null_replicate_Some: "non_null (replicate k (Some v)) = replicate k v"
  by (induction k) (simp_all add: non_null_Cons non_null_Nil)

lemma non_null_snoc_Some: "non_null (xs @ [Some v]) = non_null xs @ [v]"
  by (simp add: non_null_append non_null_Cons non_null_Nil)

lemma sorted_snoc_replicate:
  "sorted (ys @ [v :: real]) \<Longrightarrow> sorted ((ys @ [v]) @ replicate k v)"
  by (induction k) (auto simp: sorted_append)

lemma sorted_hold_last:
  assumes "xs \<noteq> []" "sorted (non_null xs)"
  shows "sorted (non_null (xs @ replicate k (last xs)))"
proof (cases "last xs")
  case None
  with assms show ?thesis by (simp add: non_null_append non_null_replicate_None)
next
  case (Some v)
  with assms(1) have xs: "xs = butlast xs @ [Some v]"
    by (metis append_butlast_last_id)
  then have nn: "non_null xs = non_null (butlast xs) @ [v]"
    by (metis non_null_snoc_Some)
  from assms(2) nn have "sorted ((non_null (butlast xs) @ [v]) @ replicate k v)"
    by (simp add: sorted_snoc_replicate del: append_assoc)
  with nn Some show ?thesis
    by (simp add: non_null_append non_null_replicate_Some)
qed

lemma list_all_hold_last:
  assumes "xs \<noteq> []" "list_all P (non_null xs)"
  shows "list_all P (non_null (xs @ replicate k (last xs)))"
proof (cases "last xs")
  case None
  with assms show ?thesis by (simp add: non_null_append non_null_replicate_None)
next
  case (Some v)
  with assms(1) have xs: "xs = butlast xs @ [Some v]"
    by (metis append_butlast_last_id)
  then have nn: "non_null xs = non_null (butlast xs) @ [v]"
    by (metis non_null_snoc_Some)
  with assms(2) have "P v" by simp
  with assms(2) Some show ?thesis
    by (auto simp: non_null_append non_null_replicate_Some list_all_iff)
qed

text \<open>The shape of every download (or extract) sequence of a pull-bearing operation.\<close>

lemma sorted_progress_shape:
  assumes s: "sorted (non_null ds)" and r: "list_all (\<lambda>v. 0 \<le> v \<and> v \<le> 100) (non_null ds)"
    and that: "t = [] \<or> t = [Some 100]"
  shows "sorted (non_null (replicate j None @ (Some 0 # ds) @ replicate k (last (Some 0 # ds)) @ t))"
proof -
  let ?xs = "Some 0 # ds"
  have s0: "sorted (non_null ?xs)"
    using s r by (auto simp: non_null_Cons list_all_iff)
  have r0: "list_all (\<lambda>v. 0 \<le> v \<and> v \<le> 100) (non_null ?xs)"
    using r by (simp add: non_null_Cons)
  have s1: "sorted (non_null (?xs @ replicate k (last ?xs)))"
    by (rule sorted_hold_last) (simp_all add: s0 del: last.simps)
  have r1: "list_all (\<lambda>v. 0 \<le> v \<and> v \<le> 100) (non_null (?xs @ replicate k (last ?xs)))"
    by (rule list_all_hold_last) (simp_all add: r0 del: last.simps)
  from that show ?thesis
  proof
    assume "t = []"
    with s1 show ?thesis
      by (simp add: non_null_append non_null_replicate_None del: last.simps)
  next
    assume t: "t = [Some 100]"
    have "sorted (non_null (?xs @ replicate k (last ?xs)) @ [100])"
      using s1 r1 by (auto simp: sorted_append list_all_iff)
    with t show ?thesis
      by (simp add: non_null_append non_null_replicate_None non_null_Cons non_null_Nil del: last.simps)
  qed
qed

lemma scan_append: "scan f d (xs @ ys) = scan f d xs @ scan f (foldl f d xs) ys"
  by (induction xs arbitrary: d) simp_all

lemma scan_onProgress_dl:
  "scan dl_after d (map (\<lambda>evt. Do_update (onProgress evt)) outs) = map pe_downloadProgress outs"
  by (induction outs arbitrary: d) (simp_all add: onProgress_def Let_def)

lemma foldl_onProgress_dl:
  "foldl dl_after d (map (\<lambda>evt. Do_update (onProgress evt)) outs) = last (d # map pe_downloadProgress outs)"
  by (induction outs arbitrary: d) (simp_all add: onProgress_def Let_def)

lemma scan_onProgress_x:
  "scan x_after d (map (\<lambda>evt. Do_update (onProgress evt)) outs) = map pe_extractProgress outs"
  by (induction outs arbitrary: d) (simp_all add: onProgress_def Let_def)

lemma foldl_onProgress_x:
  "foldl x_after d (map (\<lambda>evt. Do_update (onProgress evt)) outs) = last (d # map pe_extractProgress outs)"
  by (induction outs arbitrary: d) (simp_all add: onProgress_def Let_def)

lemma scan_msgs_dl:
  "scan dl_after d (map (\<lambda>m. Do_update (msg_patch m)) ms) = replicate (length ms) d"
  by (induction ms) (simp_all add: msg_patch_def)

lemma foldl_msgs_dl: "foldl dl_after d (map (\<lambda>m. Do_update (msg_patch m)) ms) = d"
  by (induction ms) (simp_all add: msg_patch_def)

lemma scan_msgs_x:
  "scan x_after d (map (\<lambda>m. Do_update (msg_patch m)) ms) = replicate (length ms) d"
  by (induction ms) (simp_all add: msg_patch_def)

lemma foldl_msgs_x: "foldl x_after d (map (\<lambda>m. Do_update (msg_patch m)) ms) = d"
  by (induction ms) (simp_all add: msg_patch_def)

lemma after_msg:
  "dl_after d (Do_update (msg_patch m)) = d" "x_after d (Do_update (msg_patch m)) = d"
  by (simp_all add: msg_patch_def)

lemma after_downloading:
  "dl_after d (Do_update downloading_patch) = Some 0"
  "x_after d (Do_update downloading_patch) = Some 0"
  by (simp_all add: downloading_patch_def)

lemma after_install_completed:
  "dl_after d (Do_update install_completed_patch) = Some 100"
  "x_after d (Do_update install_completed_patch) = Some 100"
  by (simp_all add: install_completed_patch_def)

lemma after_completed:
  "dl_after d (Do_update completed_patch) = d" "x_after d (Do_update completed_patch) = d"
  by (simp_all add: completed_patch_def)

lemma replicate_snoc2: "replicate n x @ [x, x] = x # x # replicate n x"
  by (induction n) simp_all

lemmas after_simps = replicate_snoc2 after_msg after_downloading after_install_completed after_completed

lemma install_body_dl:
  "\<exists>j k t. (t = [] \<or> t = [Some 100]) \<and>
     scan dl_after None (install_body (Install_pulled outs e) now)
       = replicate j None @ (Some 0 # map pe_downloadProgress outs)
         @ replicate k (last (Some 0 # map pe_downloadProgress outs)) @ t"
proof (cases e)
  case Pull_completed
  have "scan dl_after None (install_body (Install_pulled outs e) now)
       = replicate 1 None @ (Some 0 # map pe_downloadProgress outs)
         @ replicate 1 (last (Some 0 # map pe_downloadProgress outs)) @ [Some 100]"
    using Pull_completed
    by (simp add: scan_append scan_onProgress_dl foldl_onProgress_dl after_simps del: last.simps dl_after.simps(1) x_after.simps(1))
  then show ?thesis by blast
next
  case Pull_aborted
  have "scan dl_after None (install_body (Install_pulled outs e) now)
       = replicate 1 None @ (Some 0 # map pe_downloadProgress outs)
         @ replicate 1 (last (Some 0 # map pe_downloadProgress outs)) @ []"
    using Pull_aborted
    by (simp add: scan_append scan_onProgress_dl foldl_onProgress_dl after_simps del: last.simps dl_after.simps(1) x_after.simps(1))
  then show ?thesis by blast
next
  case (Pull_threw m)
  have "scan dl_after None (install_body (Install_pulled outs e) now)
       = replicate 1 None @ (Some 0 # map pe_downloadProgress outs)
         @ replicate 1 (last (Some 0 # map pe_downloadProgress outs)) @ []"
    using Pull_threw
    by (simp add: scan_append scan_onProgress_dl foldl_onProgress_dl after_simps del: last.simps dl_after.simps(1) x_after.simps(1))
  then show ?thesis by blast
qed

lemma install_body_x:
  "\<exists>j k t. (t = [] \<or> t = [Some 100]) \<and>
     scan x_after None (install_body (Install_pulled outs e) now)
       = replicate j None @ (Some 0 # map pe_extractProgress outs)
         @ replicate k (last (Some 0 # map pe_extractProgress outs)) @ t"
proof (cases e)
  case Pull_completed
  have "scan x_after None (install_body (Install_pulled outs e) now)
       = replicate 1 None @ (Some 0 # map pe_extractProgress outs)
         @ replicate 1 (last (Some 0 # map pe_extractProgress outs)) @ [Some 100]"
    using Pull_completed
    by (simp add: scan_append scan_onProgress_x foldl_onProgress_x after_simps del: last.simps dl_after.simps(1) x_after.simps(1))
  then show ?thesis by blast
next
  case Pull_aborted
  have "scan x_after None (install_body (Install_pulled outs e) now)
       = replicate 1 None @ (Some 0 # map pe_extractProgress outs)
         @ replicate 1 (last (Some 0 # map pe_extractProgress outs)) @ []"
    using Pull_aborted
    by (simp add: scan_append scan_onProgress_x foldl_onProgress_x after_simps del: last.simps dl_after.simps(1) x_after.simps(1))
  then show ?thesis by blast
next
  case (Pull_threw m)
  have "scan x_after None (install_body (Install_pulled outs e) now)
       = replicate 1 None @ (Some 0 # map pe_extractProgress outs)
         @ replicate 1 (last (Some 0 # map pe_extractProgress outs)) @ []"
    using Pull_threw
    by (simp add: scan_append scan_onProgress_x foldl_onProgress_x after_simps del: last.simps dl_after.simps(1) x_after.simps(1))
  then show ?thesis by blast
qed

lemma update_body_dl:
  "\<exists>j k t. (t = [] \<or> t = [Some 100]) \<and>
     scan dl_after None (update_body (Update_pulled tgt outs e) now)
       = replicate j None @ (Some 0 # map pe_downloadProgress outs)
         @ replicate k (last (Some 0 # map pe_downloadProgress outs)) @ t"
proof -
  let ?L = "last (Some 0 # map pe_downloadProgress outs)"
  have "\<exists>k. scan dl_after None (update_body (Update_pulled tgt outs e) now)
       = replicate 3 None @ (Some 0 # map pe_downloadProgress outs) @ replicate k ?L @ []"
  proof (cases e)
    case Update_aborted
    then have "scan dl_after None (update_body (Update_pulled tgt outs e) now)
       = replicate 3 None @ (Some 0 # map pe_downloadProgress outs) @ replicate 1 ?L @ []"
      by (simp add: scan_append scan_onProgress_dl foldl_onProgress_dl after_simps numeral_3_eq_3 del: last.simps dl_after.simps(1) x_after.simps(1))
    then show ?thesis by blast
  next
    case (Update_pull_threw m)
    then have "scan dl_after None (update_body (Update_pulled tgt outs e) now)
       = replicate 3 None @ (Some 0 # map pe_downloadProgress outs) @ replicate 1 ?L @ []"
      by (simp add: scan_append scan_onProgress_dl foldl_onProgress_dl after_simps numeral_3_eq_3 del: last.simps dl_after.simps(1) x_after.simps(1))
    then show ?thesis by blast
  next
    case (Update_switched msgs res)
    show ?thesis
    proof (cases res)
      case None
      with Update_switched have "scan dl_after None (update_body (Update_pulled tgt outs e) now)
         = replicate 3 None @ (Some 0 # map pe_downloadProgress outs)
           @ replicate (length msgs + 3) ?L @ []"
        by (simp add: scan_append scan_onProgress_dl foldl_onProgress_dl scan_msgs_dl foldl_msgs_dl
            after_simps numeral_3_eq_3
            replicate_append_same del: last.simps dl_after.simps(1) x_after.simps(1))
      then show ?thesis by blast
    next
      case (Some m)
      with Update_switched have "scan dl_after None (update_body (Update_pulled tgt outs e) now)
         = replicate 3 None @ (Some 0 # map pe_downloadProgress outs)
           @ replicate (length msgs + 2) ?L @ []"
        by (simp add: scan_append scan_onProgress_dl foldl_onProgress_dl scan_msgs_dl foldl_msgs_dl
            after_simps numeral_3_eq_3
            replicate_append_same del: last.simps dl_after.simps(1) x_after.simps(1))
      then show ?thesis by blast
    qed
  qed
  then show ?thesis by blast
qed

lemma update_body_x:
  "\<exists>j k t. (t = [] \<or> t = [Some 100]) \<and>
     scan x_after None (update_body (Update_pulled tgt outs e) now)
       = replicate j None @ (Some 0 # map pe_extractProgress outs)
         @ replicate k (last (Some 0 # map pe_extractProgress outs)) @ t"
proof -
  let ?L = "last (Some 0 # map pe_extractProgress outs)"
  have "\<exists>k. scan x_after None (update_body (Update_pulled tgt outs e) now)
       = replicate 3 None @ (Some 0 # map pe_extractProgress outs) @ replicate k ?L @ []"
  proof (cases e)
    case Update_aborted
    then have "scan x_after None (update_body (Update_pulled tgt outs e) now)
       = replicate 3 None @ (Some 0 # map pe_extractProgress outs) @ replicate 1 ?L @ []"
      by (simp add: scan_append scan_onProgress_x foldl_onProgress_x after_simps numeral_3_eq_3 del: last.simps dl_after.simps(1) x_after.simps(1))
    then show ?thesis by blast
  next
    case (Update_pull_threw m)
    then have "scan x_after None (update_body (Update_pulled tgt outs e) now)
       = replicate 3 None @ (Some 0 # map pe_extractProgress outs) @ replicate 1 ?L @ []"
      by (simp add: scan_append scan_onProgress_x foldl_onProgress_x after_simps numeral_3_eq_3 del: last.simps dl_after.simps(1) x_after.simps(1))
    then show ?thesis by blast
  next
    case (Update_switched msgs res)
    show ?thesis
    proof (cases res)
      case None
      with Update_switched have "scan x_after None (update_body (Update_pulled tgt outs e) now)
         = replicate 3 None @ (Some 0 # map pe_extractProgress outs)
           @ replicate (length msgs + 3) ?L @ []"
        by (simp add: scan_append scan_onProgress_x foldl_onProgress_x scan_msgs_x foldl_msgs_x
            after_simps numeral_3_eq_3
            replicate_append_same del: last.simps dl_after.simps(1) x_after.simps(1))
      then show ?thesis by blast
    next
      case (Some m)
      with Update_switched have "scan x_after None (update_body (Update_pulled tgt outs e) now)
         = replicate 3 None @ (Some 0 # map pe_extractProgress outs)
           @ replicate (length msgs + 2) ?L @ []"
        by (simp add: scan_append scan_onProgress_x foldl_onProgress_x scan_msgs_x foldl_msgs_x
            after_simps numeral_3_eq_3
            replicate_append_same del: last.simps dl_after.simps(1) x_after.simps(1))
      then show ?thesis by blast
    qed
  qed
  then show ?thesis by blast
qed

lemma step_body:
  assumes "currentOperation s = Some c" "\<not> is_call a"
  shows "\<exists>c'. currentOperation (step sv s a) = Some c' \<and> emitted (step sv s a) = c' # emitted s \<and>
           opId c' = opId c \<and> downloadProgress c' = dl_after (downloadProgress c) a \<and>
           extractProgress c' = x_after (extractProgress c) a"
proof (cases a)
  case (Do_call x st)
  with assms show ?thesis by simp
next
  case (Do_update p)
  with assms show ?thesis
    by (simp add: updateOperationProgress_def emit_progress_def apply_patch_def)
next
  case (Do_set_target t)
  with assms show ?thesis
    by (simp add: setTargetVersionTag_def emit_progress_def)
next
  case (Do_finish t m n)
  with assms show ?thesis
    by (simp add: finishOperation_def emit_progress_def)
qed

lemma steps_body:
  assumes "currentOperation s = Some c" "list_all (\<lambda>a. \<not> is_call a) acts"
  shows "\<exists>new. emitted (foldl (step sv) s acts) = new @ emitted s \<and>
           list_all (\<lambda>k. opId k = opId c) new \<and>
           map downloadProgress (rev new) = scan dl_after (downloadProgress c) acts \<and>
           map extractProgress (rev new) = scan x_after (extractProgress c) acts"
  using assms
proof (induction acts arbitrary: s c)
  case Nil
  then show ?case by simp
next
  case (Cons a acts)
  from Cons.prems have na: "\<not> is_call a" and rest: "list_all (\<lambda>a. \<not> is_call a) acts"
    by simp_all
  from step_body [OF Cons.prems(1) na, of sv] obtain c' where
    c': "currentOperation (step sv s a) = Some c'" "emitted (step sv s a) = c' # emitted s"
      "opId c' = opId c" "downloadProgress c' = dl_after (downloadProgress c) a"
      "extractProgress c' = x_after (extractProgress c) a"
    by blast
  from Cons.IH [OF c'(1) rest] obtain new where
    n: "emitted (foldl (step sv) (step sv s a) acts) = new @ emitted (step sv s a)"
      "list_all (\<lambda>k. opId k = opId c') new"
      "map downloadProgress (rev new) = scan dl_after (downloadProgress c') acts"
      "map extractProgress (rev new) = scan x_after (extractProgress c') acts"
    by blast
  let ?new = "new @ [c']"
  have "emitted (foldl (step sv) s (a # acts)) = ?new @ emitted s"
    using n(1) c'(2) by simp
  moreover have "list_all (\<lambda>k. opId k = opId c) ?new"
    using n(2) c'(3) by simp
  moreover have "map downloadProgress (rev ?new) = scan dl_after (downloadProgress c) (a # acts)"
    using n(3) c'(4) by simp
  moreover have "map extractProgress (rev ?new) = scan x_after (extractProgress c) (a # acts)"
    using n(4) c'(5) by simp
  ultimately show ?case by blast
qed

lemma begin_idle:
  assumes "requireNoRunningOperation s = Inr ()"
  shows "\<exists>c0. beginOperation ty tgt st s = Inr (fresh_id st, s\<lparr>currentOperation := Some c0, emitted := c0 # emitted s\<rparr>)
           \<and> opId c0 = fresh_id st \<and> downloadProgress c0 = None \<and> extractProgress c0 = None"
proof -
  let ?c0 = "\<lparr>opId = fresh_id st, optype = ty, status = Running, startedAt = now_iso st,
              finishedAt = None, targetVersionTag = (if tgt = Some [] then None else tgt),
              progress = None, downloadProgress = None, extractProgress = None,
              message = None, error = None\<rparr>"
  have "beginOperation ty tgt st s
      = Inr (fresh_id st, s\<lparr>currentOperation := Some ?c0, emitted := ?c0 # emitted s\<rparr>)"
    using assms by (simp add: beginOperation_def emit_progress_def Let_def)
  moreover have "opId ?c0 = fresh_id st \<and> downloadProgress ?c0 = None \<and> extractProgress ?c0 = None"
    by simp
  ultimately show ?thesis by blast
qed

lemma no_call_updates: "list_all (\<lambda>a. \<not> is_call a) (map (\<lambda>x. Do_update (f x)) xs)"
  by (induction xs) simp_all

lemma install_body_no_call: "list_all (\<lambda>a. \<not> is_call a) (install_body r now)"
proof (cases r)
  case (Install_unavailable m)
  then show ?thesis by simp
next
  case (Install_pulled outs e)
  then show ?thesis by (cases e) (simp_all add: no_call_updates)
qed

lemma update_body_no_call: "list_all (\<lambda>a. \<not> is_call a) (update_body r now)"
proof (cases r)
  case (Update_no_release m)
  then show ?thesis by simp
next
  case (Update_unavailable t m)
  then show ?thesis by simp
next
  case (Update_pulled t outs e)
  show ?thesis
  proof (cases e)
    case Update_aborted
    with Update_pulled show ?thesis by (simp add: no_call_updates)
  next
    case (Update_pull_threw m)
    with Update_pulled show ?thesis by (simp add: no_call_updates)
  next
    case (Update_switched msgs res)
    with Update_pulled show ?thesis by (cases res) (simp_all add: no_call_updates)
  qed
qed

text \<open>An operation body run from the state that \<open>beginOperation\<close> leaves.\<close>

lemma body_from_begin:
  assumes idle: "requireNoRunningOperation s = Inr ()"
    and b: "r = beginOperation ty tgt st s"
    and nc: "list_all (\<lambda>a. \<not> is_call a) acts"
  shows "\<exists>new. emitted (foldl (step sv) (state_after r s) acts) = new @ emitted s \<and>
           list_all (\<lambda>k. opId k = fresh_id st) new \<and>
           map downloadProgress (rev new) = None # scan dl_after None acts \<and>
           map extractProgress (rev new) = None # scan x_after None acts"
proof -
  from begin_idle [OF idle, of ty tgt st] obtain c0 where
    c0: "beginOperation ty tgt st s = Inr (fresh_id st, s\<lparr>currentOperation := Some c0, emitted := c0 # emitted s\<rparr>)"
      "opId c0 = fresh_id st" "downloadProgress c0 = None" "extractProgress c0 = None"
    by blast
  let ?s1 = "s\<lparr>currentOperation := Some c0, emitted := c0 # emitted s\<rparr>"
  have s1: "state_after r s = ?s1"
    unfolding b c0(1) state_after_def by simp
  have cur: "currentOperation ?s1 = Some c0" by simp
  from steps_body [OF cur nc, of sv] obtain new where
    n: "emitted (foldl (step sv) ?s1 acts) = new @ emitted ?s1"
      "list_all (\<lambda>k. opId k = opId c0) new"
      "map downloadProgress (rev new) = scan dl_after (downloadProgress c0) acts"
      "map extractProgress (rev new) = scan x_after (extractProgress c0) acts"
    by blast
  let ?new = "new @ [c0]"
  have e1: "emitted (foldl (step sv) (state_after r s) acts) = ?new @ emitted s"
    using n(1) s1 by simp
  have e2: "list_all (\<lambda>k. opId k = fresh_id st) ?new"
    using n(2) c0(2) by simp
  have e3: "map downloadProgress (rev ?new) = None # scan dl_after None acts"
    using n(3) c0(3) by simp
  have e4: "map extractProgress (rev ?new) = None # scan x_after None acts"
    using n(4) c0(4) by simp
  from e1 e2 e3 e4 show ?thesis
    by (intro exI [of _ ?new] conjI)
qed

lemma installOrSync_begin:
  "requireNoRunningOperation s = Inr () \<Longrightarrow> assertTagAllowedForInstall sv tag = Inr t \<Longrightarrow>
     installOrSync sv tag st s = beginOperation Install (Some t) st s"
  by (simp add: installOrSync_def bind_err_def)

lemma updateToLatest_begin:
  "requireNoRunningOperation s = Inr () \<Longrightarrow> assertDataLossAck ack = Inr a \<Longrightarrow>
     updateToLatest ack st s = beginOperation Update None st s"
  by (simp add: updateToLatest_def bind_err_def)

lemma pull_events_dl:
  "sorted (non_null (map pe_downloadProgress (pullImage_events t0 pre evs)))"
  "list_all (\<lambda>v. 0 \<le> v \<and> v \<le> 100) (non_null (map pe_downloadProgress (pullImage_events t0 pre evs)))"
  using follow_dl [of "init_pull t0 pre" pre evs]
  by (simp_all add: pullImage_events_def init_pull_last)

lemma pull_events_x:
  "sorted (non_null (map pe_extractProgress (pullImage_events t0 pre evs)))"
  "list_all (\<lambda>v. 0 \<le> v \<and> v \<le> 100) (non_null (map pe_extractProgress (pullImage_events t0 pre evs)))"
  using follow_x [of "init_pull t0 pre" pre evs]
  by (simp_all add: pullImage_events_def init_pull_last)

lemma install_progress_sorted:
  assumes idle: "requireNoRunningOperation s = Inr ()"
    and ok: "assertTagAllowedForInstall sv tag = Inr t"
  shows "\<exists>new. emitted (foldl (step sv) (state_after (installOrSync sv tag st s) s)
                   (install_body (Install_pulled (pullImage_events t0 pre evs) e) now)) = new @ emitted s \<and>
           list_all (\<lambda>k. opId k = fresh_id st) new \<and>
           sorted (non_null (map downloadProgress (rev new))) \<and>
           sorted (non_null (map extractProgress (rev new)))"
proof -
  let ?outs = "pullImage_events t0 pre evs"
  let ?acts = "install_body (Install_pulled ?outs e) now"
  from body_from_begin [OF idle installOrSync_begin [OF idle ok] install_body_no_call,
      where sv = sv and st = st and ?r1 = "Install_pulled ?outs e" and ?now1 = now]
  obtain new where
    n: "emitted (foldl (step sv) (state_after (installOrSync sv tag st s) s) ?acts) = new @ emitted s"
      "list_all (\<lambda>k. opId k = fresh_id st) new"
      "map downloadProgress (rev new) = None # scan dl_after None ?acts"
      "map extractProgress (rev new) = None # scan x_after None ?acts"
    by (elim exE conjE)
  from install_body_dl [of ?outs e now] obtain j k u where
    d: "u = [] \<or> u = [Some 100]"
      "scan dl_after None ?acts = replicate j None @ (Some 0 # map pe_downloadProgress ?outs)
         @ replicate k (last (Some 0 # map pe_downloadProgress ?outs)) @ u"
    by (elim exE conjE)
  from install_body_x [of ?outs e now] obtain j' k' u' where
    x: "u' = [] \<or> u' = [Some 100]"
      "scan x_after None ?acts = replicate j' None @ (Some 0 # map pe_extractProgress ?outs)
         @ replicate k' (last (Some 0 # map pe_extractProgress ?outs)) @ u'"
    by (elim exE conjE)
  have sd: "sorted (non_null (map downloadProgress (rev new)))"
    unfolding n(3) d(2) non_null_Cons
    using sorted_progress_shape [OF pull_events_dl [of t0 pre evs] d(1), of j k] by simp
  have sx: "sorted (non_null (map extractProgress (rev new)))"
    unfolding n(4) x(2) non_null_Cons
    using sorted_progress_shape [OF pull_events_x [of t0 pre evs] x(1), of j' k'] by simp
  from n(1,2) sd sx show ?thesis
    by (intro exI [of _ new] conjI)
qed

lemma update_progress_sorted:
  assumes idle: "requireNoRunningOperation s = Inr ()"
    and ok: "assertDataLossAck ack = Inr a"
  shows "\<exists>new. emitted (foldl (step sv) (state_after (updateToLatest ack st s) s)
                   (update_body (Update_pulled tgt (pullImage_events t0 pre evs) e) now)) = new @ emitted s \<and>
           list_all (\<lambda>k. opId k = fresh_id st) new \<and>
           sorted (non_null (map downloadProgress (rev new))) \<and>
           sorted (non_null (map extractProgress (rev new)))"
proof -
  let ?outs = "pullImage_events t0 pre evs"
  let ?acts = "update_body (Update_pulled tgt ?outs e) now"
  from body_from_begin [OF idle updateToLatest_begin [OF idle ok] update_body_no_call,
      where sv = sv and st = st and ?r1 = "Update_pulled tgt ?outs e" and ?now1 = now]
  obtain new where
    n: "emitted (foldl (step sv) (state_after (updateToLatest ack st s) s) ?acts) = new @ emitted s"
      "list_all (\<lambda>k. opId k = fresh_id st) new"
      "map downloadProgress (rev new) = None # scan dl_after None ?acts"
      "map extractProgress (rev new) = None # scan x_after None ?acts"
    by (elim exE conjE)
  from update_body_dl [of tgt ?outs e now] obtain j k u where
    d: "u = [] \<or> u = [Some 100]"
      "scan dl_after None ?acts = replicate j None @ (Some 0 # map pe_downloadProgress ?outs)
         @ replicate k (last (Some 0 # map pe_downloadProgress ?outs)) @ u"
    by (elim exE conjE)
  from update_body_x [of tgt ?outs e now] obtain j' k' u' where
    x: "u' = [] \<or> u' = [Some 100]"
      "scan x_after None ?acts = replicate j' None @ (Some 0 # map pe_extractProgress ?outs)
         @ replicate k' (last (Some 0 # map pe_extractProgress ?outs)) @ u'"
    by (elim exE conjE)
  have sd: "sorted (non_null (map downloadProgress (rev new)))"
    unfolding n(3) d(2) non_null_Cons
    using sorted_progress_shape [OF pull_events_dl [of t0 pre evs] d(1), of j k] by simp
  have sx: "sorted (non_null (map extractProgress (rev new)))"
    unfolding n(4) x(2) non_null_Cons
    using sorted_progress_shape [OF pull_events_x [of t0 pre evs] x(1), of j' k'] by simp
  from n(1,2) sd sx show ?thesis
    by (intro exI [of _ new] conjI)
qed

lemma key_a: "layer_key (Some ''aaaaaaaaaaaa'') = Some ''aaaaaaaaaaaa''"
  by (simp add: layer_key_def is_hex_def is_digit_def)

lemma key_b: "layer_key (Some ''bbbbbbbbbbbb'') = Some ''bbbbbbbbbbbb''"
  by (simp add: layer_key_def is_hex_def is_digit_def)

lemma absorb1: "absorb None (init_pull 0 None) example_ev1 = after_ev1\<lparr>lastDlPercent := 0\<rparr>"
  by (simp add: example_ev1_def absorb_def key_a to_lower_def update_layer_def init_pull_def
      seed_layer_def has_layer_def get_layer_def new_layer_def on_downloading_def freeze_def
      FREEZE_DELAY_MS_def layer_a_def after_ev1_def Let_def)

lemma pct1: "percent (computeTotals (after_ev1\<lparr>lastDlPercent := 0\<rparr>) Dl) = Some 50"
  "percent (computeTotals (after_ev1\<lparr>lastDlPercent := 0\<rparr>) X) = Some 0"
  by (simp_all add: computeTotals_def add_layer_def layer_a_def after_ev1_def Let_def round_def)

lemma absorb2: "absorb None after_ev1 example_ev2 = after_ev1\<lparr>layers := [layer_a, layer_b], lastNewLayerAtMs := 1300\<rparr>"
  by (simp add: example_ev2_def absorb_def key_b to_lower_def update_layer_def
      seed_layer_def has_layer_def get_layer_def new_layer_def on_downloading_def freeze_def
      FREEZE_DELAY_MS_def layer_a_def layer_b_def after_ev1_def Let_def)

lemma pct2: "percent (computeTotals (after_ev1\<lparr>layers := [layer_a, layer_b], lastNewLayerAtMs := 1300\<rparr>) Dl) = Some 5"
  by (simp add: computeTotals_def add_layer_def layer_a_def layer_b_def after_ev1_def Let_def round_def)

lemma he1_state: "fst (handle_event None (init_pull 0 None) example_ev1) = after_ev1"
  by (simp add: handle_event_def Let_def absorb1 pct1 clamp_report_def) (simp add: after_ev1_def)

lemma he1_out: "pe_downloadProgress (snd (handle_event None (init_pull 0 None) example_ev1)) = Some 50"
  by (simp add: handle_event_dl absorb1 pct1 init_pull_last)

lemma he2_out: "pe_downloadProgress (snd (handle_event None after_ev1 example_ev2)) = Some 50"
  by (simp add: handle_event_dl absorb2 pct2) (simp add: after_ev1_def)

lemma example_reported:
  "map pe_downloadProgress (pullImage_events 0 None example_stream) = [Some 50, Some 50]"
  by (simp add: pullImage_events_def example_stream_def follow_Cons he1_state he1_out he2_out
      del: follow.simps(2))

text \<open>
  Claim C5. The \<open>downloadProgress\<close> values that \<open>pullImage\<close> reports for a stream of
  pull events are, ignoring \<open>null\<close>, non-decreasing, and so are the \<open>extractProgress\<close>
  values: the handler reports the larger of the last reported percentage and the
  freshly computed one, and remembers what it reported. The same holds for the
  snapshots that an install or an update emits from \<open>beginOperation\<close> to its finish:
  their \<open>downloadProgress\<close> and \<open>extractProgress\<close> fields, ignoring \<open>null\<close>, never
  decrease.
\<close>

theorem progress_monotone:
  "sorted (non_null (map pe_downloadProgress (pullImage_events start pre evs))) \<and>
   sorted (non_null (map pe_extractProgress (pullImage_events start pre evs))) \<and>
   pe_downloadProgress (snd (handle_event pre ps ev))
     = map_option (max (lastDlPercent ps)) (percent (computeTotals (absorb pre ps ev) Dl)) \<and>
   pe_extractProgress (snd (handle_event pre ps ev))
     = map_option (max (lastXPercent ps)) (percent (computeTotals (absorb pre ps ev) X)) \<and>
   lastDlPercent (fst (handle_event pre ps ev))
     = (case pe_downloadProgress (snd (handle_event pre ps ev)) of
          None \<Rightarrow> lastDlPercent ps | Some v \<Rightarrow> v) \<and>
   lastXPercent (fst (handle_event pre ps ev))
     = (case pe_extractProgress (snd (handle_event pre ps ev)) of
          None \<Rightarrow> lastXPercent ps | Some v \<Rightarrow> v) \<and>
   (requireNoRunningOperation s = Inr () \<and> assertTagAllowedForInstall sv tag = Inr t \<longrightarrow>
      (\<exists>new. emitted (foldl (step sv) (state_after (installOrSync sv tag st s) s)
                 (install_body (Install_pulled (pullImage_events start pre evs) e) now))
               = new @ emitted s \<and>
             list_all (\<lambda>k. opId k = fresh_id st) new \<and>
             sorted (non_null (map downloadProgress (rev new))) \<and>
             sorted (non_null (map extractProgress (rev new))))) \<and>
   (requireNoRunningOperation s = Inr () \<and> assertDataLossAck ack = Inr a \<longrightarrow>
      (\<exists>new. emitted (foldl (step sv) (state_after (updateToLatest ack st s) s)
                 (update_body (Update_pulled tgt (pullImage_events start pre evs) eu) now))
               = new @ emitted s \<and>
             list_all (\<lambda>k. opId k = fresh_id st) new \<and>
             sorted (non_null (map downloadProgress (rev new))) \<and>
             sorted (non_null (map extractProgress (rev new)))))"
proof (intro conjI impI)
  show "sorted (non_null (map pe_downloadProgress (pullImage_events start pre evs)))"
    by (rule pull_events_dl)
  show "sorted (non_null (map pe_extractProgress (pullImage_events start pre evs)))"
    by (rule pull_events_x)
  show "pe_downloadProgress (snd (handle_event pre ps ev))
     = map_option (max (lastDlPercent ps)) (percent (computeTotals (absorb pre ps ev) Dl))"
    by (rule handle_event_dl)
  show "pe_extractProgress (snd (handle_event pre ps ev))
     = map_option (max (lastXPercent ps)) (percent (computeTotals (absorb pre ps ev) X))"
    by (rule handle_event_x)
  show "lastDlPercent (fst (handle_event pre ps ev))
     = (case pe_downloadProgress (snd (handle_event pre ps ev)) of
          None \<Rightarrow> lastDlPercent ps | Some v \<Rightarrow> v)"
    by (simp add: handle_event_dl split: option.splits)
  show "lastXPercent (fst (handle_event pre ps ev))
     = (case pe_extractProgress (snd (handle_event pre ps ev)) of
          None \<Rightarrow> lastXPercent ps | Some v \<Rightarrow> v)"
    by (simp add: handle_event_x split: option.splits)
next
  assume h: "requireNoRunningOperation s = Inr () \<and> assertTagAllowedForInstall sv tag = Inr t"
  then have idle: "requireNoRunningOperation s = Inr ()"
    and ok: "assertTagAllowedForInstall sv tag = Inr t"
    by simp_all
  show "\<exists>new. emitted (foldl (step sv) (state_after (installOrSync sv tag st s) s)
                 (install_body (Install_pulled (pullImage_events start pre evs) e) now))
               = new @ emitted s \<and>
             list_all (\<lambda>k. opId k = fresh_id st) new \<and>
             sorted (non_null (map downloadProgress (rev new))) \<and>
             sorted (non_null (map extractProgress (rev new)))"
    by (rule install_progress_sorted [OF idle ok])
next
  assume h: "requireNoRunningOperation s = Inr () \<and> assertDataLossAck ack = Inr a"
  then have idle: "requireNoRunningOperation s = Inr ()"
    and ok: "assertDataLossAck ack = Inr a"
    by simp_all
  show "\<exists>new. emitted (foldl (step sv) (state_after (updateToLatest ack st s) s)
                 (update_body (Update_pulled tgt (pullImage_events start pre evs) eu) now))
               = new @ emitted s \<and>
             list_all (\<lambda>k. opId k = fresh_id st) new \<and>
             sorted (non_null (map downloadProgress (rev new))) \<and>
             sorted (non_null (map extractProgress (rev new)))"
    by (rule update_progress_sorted [OF idle ok])
qed

theorem progress_monotone_witness:
  "requireNoRunningOperation initial = Inr () \<and>
   assertTagAllowedForInstall semver_core ''testing'' = Inr ''testing'' \<and>
   assertDataLossAck ''has_backup'' = Inr ''has_backup'' \<and>
   percent (computeTotals (absorb None after_ev1 example_ev2) Dl) = Some 5 \<and>
   map pe_downloadProgress (pullImage_events 0 None example_stream) = [Some 50, Some 50] \<and>
   sorted (non_null (map pe_downloadProgress (pullImage_events 0 None example_stream))) \<and>
   (\<exists>new. emitted (foldl (step semver_core)
              (state_after (installOrSync semver_core ''testing''
                  \<lparr>fresh_id = ''op_1'', now_iso = ''t0''\<rparr> initial) initial)
              (install_body (Install_pulled (pullImage_events 0 None example_stream) Pull_completed) ''t9''))
            = new @ emitted initial \<and>
          list_all (\<lambda>k. opId k = ''op_1'') new \<and>
          sorted (non_null (map downloadProgress (rev new))) \<and>
          sorted (non_null (map extractProgress (rev new)))) \<and>
   (\<exists>new. emitted (foldl (step semver_core)
              (state_after (updateToLatest ''has_backup''
                  \<lparr>fresh_id = ''op_1'', now_iso = ''t0''\<rparr> initial) initial)
              (update_body (Update_pulled ''v1.2.3'' (pullImage_events 0 None example_stream)
                  (Update_switched [''Starting new version''] None)) ''t9''))
            = new @ emitted initial \<and>
          list_all (\<lambda>k. opId k = ''op_1'') new \<and>
          sorted (non_null (map downloadProgress (rev new))) \<and>
          sorted (non_null (map extractProgress (rev new))))"
proof -
  have idle: "requireNoRunningOperation initial = Inr ()"
    by (simp add: requireNoRunningOperation_def initial_def)
  have tag: "assertTagAllowedForInstall semver_core ''testing'' = Inr ''testing''"
    by (rule install_accepts_testing)
  have ack: "assertDataLossAck ''has_backup'' = Inr ''has_backup''"
    by (simp add: assertDataLossAck_def trim_def js_space_def)
  have five: "percent (computeTotals (absorb None after_ev1 example_ev2) Dl) = Some 5"
    by (simp add: absorb2 pct2)
  note pm = progress_monotone [where start = 0 and pre = None and evs = example_stream
      and s = initial and sv = semver_core and tag = "''testing''" and t = "''testing''"
      and st = "\<lparr>fresh_id = ''op_1'', now_iso = ''t0''\<rparr>" and e = Pull_completed
      and now = "''t9''" and ack = "''has_backup''" and a = "''has_backup''"
      and tgt = "''v1.2.3''" and eu = "Update_switched [''Starting new version''] None"]
  from pm idle tag ack five example_reported show ?thesis
    by simp
qed


subsection \<open>Retained names\<close>

lemma trim_noop:
  assumes "s \<noteq> []" "\<not> js_space (hd s)" "\<not> js_space (last s)"
  shows "trim s = s"
proof -
  have a: "dropWhile js_space s = s"
    using assms(1,2) by (cases s) simp_all
  have "dropWhile js_space (rev s) = rev s"
    using assms(1,3) by (cases "rev s") (simp_all add: last_rev [symmetric] hd_rev)
  then show ?thesis
    by (simp add: trim_def a)
qed

lemma name_char_not_space: "is_name_char c \<Longrightarrow> \<not> js_space c"
  by (auto simp: is_name_char_def is_alnum_def is_upper_def is_lower_def is_digit_def js_space_def Let_def)

lemma name_char_printable: "is_name_char c \<Longrightarrow> is_printable c"
  by (auto simp: is_name_char_def is_alnum_def is_upper_def is_lower_def is_digit_def is_printable_def Let_def)

lemma alnum_not_dash: "is_alnum c \<Longrightarrow> c \<noteq> CHR ''-''"
  by (auto simp: is_alnum_def is_upper_def is_lower_def is_digit_def Let_def)

lemma collapse_runs_noop: "list_all is_name_char s \<Longrightarrow> collapse_runs s = s"
  by (induction s) simp_all

lemma strip_dashes_noop:
  assumes "s \<noteq> []" "hd s \<noteq> CHR ''-''" "last s \<noteq> CHR ''-''"
  shows "strip_dashes s = s"
proof -
  have a: "dropWhile (\<lambda>c. c = CHR ''-'') s = s"
    using assms(1,2) by (cases s) simp_all
  have "dropWhile (\<lambda>c. c = CHR ''-'') (rev s) = rev s"
    using assms(1,3) by (cases "rev s") (simp_all add: last_rev [symmetric] hd_rev)
  then show ?thesis
    by (simp add: strip_dashes_def a)
qed

lemma safe_pattern_all: "safe_pattern t \<Longrightarrow> list_all is_name_char t"
  by (cases t) (simp_all add: safe_pattern_def alnum_name_char)

lemma strip_dashes_safe:
  assumes "safe_pattern t"
  shows "strip_dashes t = rev (dropWhile (\<lambda>c. c = CHR ''-'') (rev t))"
    and "strip_dashes t \<noteq> []"
    and "is_name_char (last (strip_dashes t))"
proof -
  have ne: "t \<noteq> []" and hd: "is_alnum (hd t)"
    using assms by (simp_all add: safe_pattern_def)
  have a: "dropWhile (\<lambda>c. c = CHR ''-'') t = t"
    using ne alnum_not_dash [OF hd] by (cases t) simp_all
  show b: "strip_dashes t = rev (dropWhile (\<lambda>c. c = CHR ''-'') (rev t))"
    by (simp add: strip_dashes_def a)
  have "hd t \<in> set (rev t)"
    using ne by simp
  then have "dropWhile (\<lambda>c. c = CHR ''-'') (rev t) \<noteq> []"
    using alnum_not_dash [OF hd] by (auto simp: dropWhile_eq_Nil_conv simp del: set_rev)
  then show c: "strip_dashes t \<noteq> []"
    by (simp add: b)
  have "last (strip_dashes t) \<in> set (strip_dashes t)"
    using c by (rule last_in_set)
  then have "last (strip_dashes t) \<in> set t"
    unfolding b by (auto dest: set_dropWhileD)
  then show "is_name_char (last (strip_dashes t))"
    using safe_pattern_all [OF assms] by (simp add: list_all_iff)
qed

lemma sanitize_safe:
  assumes "safe_pattern t"
  shows "sanitizeNamePart t = strip_dashes t"
proof -
  have ne: "t \<noteq> []" and hd: "is_alnum (hd t)"
    using assms(1) by (simp_all add: safe_pattern_def)
  have all: "list_all is_name_char t"
    by (rule safe_pattern_all [OF assms(1)])
  have "is_name_char (last t)"
    using all ne by (simp add: list_all_iff)
  then have tr: "trim t = t"
    using ne hd by (intro trim_noop) (simp_all add: name_char_not_space alnum_name_char)
  have fl: "filter is_printable t = t"
    using all by (simp add: list_all_iff name_char_printable)
  show ?thesis
    using ne strip_dashes_safe(2) [OF assms]
    by (simp add: sanitizeNamePart_def tr fl collapse_runs_noop [OF all] Let_def)
qed

lemma strip_dashes_plain:
  assumes "safe_pattern t" "last t \<noteq> CHR ''-''"
  shows "strip_dashes t = t"
proof -
  have "t \<noteq> []" "hd t \<noteq> CHR ''-''"
    using assms(1) by (simp_all add: safe_pattern_def alnum_not_dash)
  then show ?thesis
    using assms(2) by (intro strip_dashes_noop)
qed

lemma split_dunder_nonempty: "split_dunder s \<noteq> []"
  by (induction s rule: split_dunder.induct) (simp_all split: list.splits)

lemma join_dunder_cons: "join_dunder ((a # p) # ps) = a # join_dunder (p # ps)"
  by (cases ps) simp_all

lemma join_split_dunder: "join_dunder (split_dunder s) = s"
proof (induction s rule: split_dunder.induct)
  case 1
  show ?case by simp
next
  case (2 c)
  show ?case by simp
next
  case (3 a b cs)
  show ?case
  proof (cases "a = CHR ''_'' \<and> b = CHR ''_''")
    case True
    obtain p ps where sp: "split_dunder cs = p # ps"
      using split_dunder_nonempty [of cs] by (cases "split_dunder cs") simp_all
    show ?thesis
      using True 3(1) sp by simp
  next
    case False
    obtain p ps where sp: "split_dunder (b # cs) = p # ps"
      using split_dunder_nonempty [of "b # cs"] by (cases "split_dunder (b # cs)") simp_all
    have "join_dunder (p # ps) = b # cs"
      using 3(2) False sp by simp
    moreover have "split_dunder (a # b # cs) = (a # p) # ps"
      using False sp by auto
    ultimately show ?thesis
      by (simp add: join_dunder_cons del: join_dunder.simps split_dunder.simps)
  qed
qed

lemma split_dunder_segment:
  assumes "\<not> js_includes ''__'' s" "s = [] \<or> last s \<noteq> CHR ''_''"
  shows "split_dunder (s @ ''__'' @ r) = s # split_dunder r"
  using assms
proof (induction s rule: split_dunder.induct)
  case 1
  show ?case by simp
next
  case (2 c)
  then show ?case by simp
next
  case (3 a b cs)
  have nb: "\<not> (a = CHR ''_'' \<and> b = CHR ''_'')"
    using 3(3) by auto
  have "\<not> js_includes ''__'' (b # cs)"
    using 3(3) by simp
  moreover have "b # cs = [] \<or> last (b # cs) \<noteq> CHR ''_''"
    using 3(4) by simp
  ultimately have "split_dunder ((b # cs) @ ''__'' @ r) = (b # cs) # split_dunder r"
    using 3(2) nb by blast
  then show ?case
    using nb by simp
qed

lemma no_underscore_segment:
  assumes "CHR ''_'' \<notin> set s"
  shows "split_dunder (s @ ''__'' @ r) = s # split_dunder r"
proof (rule split_dunder_segment)
  show "\<not> js_includes ''__'' s"
    using assms by (induction s) (auto simp: prefix_Cons)
  show "s = [] \<or> last s \<noteq> CHR ''_''"
    using assms by (cases "s = []") (auto dest: last_in_set)
qed

lemma below_ten: "(n::nat) < 10 \<Longrightarrow> n \<in> {0, 1, 2, 3, 4, 5, 6, 7, 8, 9}"
  by auto

lemma digit_is_digit: "n < 10 \<Longrightarrow> is_digit (digit n)"
  by (drule below_ten) (auto simp: digit_def is_digit_def Let_def)

lemma digit_not_underscore: "n < 10 \<Longrightarrow> digit n \<noteq> CHR ''_''"
  by (drule below_ten) (auto simp: digit_def)

lemma digit_not_space: "n < 10 \<Longrightarrow> \<not> js_space (digit n)"
  by (drule below_ten) (auto simp: digit_def js_space_def)

lemma dec_four:
  assumes "1000 \<le> n" "n \<le> 9999"
  shows "dec n = [digit (n div 1000), digit (n div 100 mod 10), digit (n div 10 mod 10), digit (n mod 10)]"
proof -
  have a: "dec (n div 1000) = [digit (n div 1000)]"
    using assms by (simp add: dec.simps [of "n div 1000"])
  have b: "dec (n div 100) = dec (n div 1000) @ [digit (n div 100 mod 10)]"
    using assms by (simp add: dec.simps [of "n div 100"] div_mult2_eq [symmetric])
  have c: "dec (n div 10) = dec (n div 100) @ [digit (n div 10 mod 10)]"
    using assms by (simp add: dec.simps [of "n div 10"] div_mult2_eq [symmetric])
  have d: "dec n = dec (n div 10) @ [digit (n mod 10)]"
    using assms by (simp add: dec.simps [of n])
  show ?thesis
    by (simp add: a b c d)
qed

lemma pad_two:
  assumes "n < 100"
  shows "pad n = [digit (n div 10), digit (n mod 10)]"
proof (cases "n < 10")
  case True
  then show ?thesis
    by (simp add: pad_def dec.simps [of n] digit_def)
next
  case False
  then have "dec n = [digit (n div 10), digit (n mod 10)]"
    using assms by (simp add: dec.simps [of n] dec.simps [of "n div 10"])
  then show ?thesis
    by (simp add: pad_def)
qed

lemma compact_of_date:
  assumes "four_digit_date u"
  shows "isoToCompactTimestamp (Valid_date u) =
     [digit (nat (year u) div 1000), digit (nat (year u) div 100 mod 10),
      digit (nat (year u) div 10 mod 10), digit (nat (year u) mod 10),
      digit (month u div 10), digit (month u mod 10),
      digit (day u div 10), digit (day u mod 10), CHR ''T'',
      digit (hours u div 10), digit (hours u mod 10),
      digit (minutes u div 10), digit (minutes u mod 10),
      digit (seconds u div 10), digit (seconds u mod 10), CHR ''Z'']"
proof -
  have y: "string_of_int (year u) = dec (nat (year u))" "1000 \<le> nat (year u)" "nat (year u) \<le> 9999"
    using assms by (auto simp: four_digit_date_def string_of_int_def)
  have p: "month u < 100" "day u < 100" "hours u < 100" "minutes u < 100" "seconds u < 100"
    using assms by (simp_all add: four_digit_date_def)
  show ?thesis
    by (simp add: isoToCompactTimestamp_def y(1) dec_four [OF y(2,3)] pad_two [OF p(1)]
        pad_two [OF p(2)] pad_two [OF p(3)] pad_two [OF p(4)] pad_two [OF p(5)])
qed

lemma iso_of_date:
  assumes "four_digit_date u"
  shows "iso_seconds u =
     [digit (nat (year u) div 1000), digit (nat (year u) div 100 mod 10),
      digit (nat (year u) div 10 mod 10), digit (nat (year u) mod 10), CHR ''-'',
      digit (month u div 10), digit (month u mod 10), CHR ''-'',
      digit (day u div 10), digit (day u mod 10), CHR ''T'',
      digit (hours u div 10), digit (hours u mod 10), CHR '':'',
      digit (minutes u div 10), digit (minutes u mod 10), CHR '':'',
      digit (seconds u div 10), digit (seconds u mod 10), CHR ''Z'']"
proof -
  have y: "string_of_int (year u) = dec (nat (year u))" "1000 \<le> nat (year u)" "nat (year u) \<le> 9999"
    using assms by (auto simp: four_digit_date_def string_of_int_def)
  have p: "month u < 100" "day u < 100" "hours u < 100" "minutes u < 100" "seconds u < 100"
    using assms by (simp_all add: four_digit_date_def)
  show ?thesis
    by (simp add: iso_seconds_def y(1) dec_four [OF y(2,3)] pad_two [OF p(1)]
        pad_two [OF p(2)] pad_two [OF p(3)] pad_two [OF p(4)] pad_two [OF p(5)])
qed

lemma date_digits:
  assumes "four_digit_date u"
  shows "nat (year u) div 1000 < 10" "nat (year u) div 100 mod 10 < 10"
    "nat (year u) div 10 mod 10 < 10" "nat (year u) mod 10 < 10"
    "month u div 10 < 10" "month u mod 10 < 10" "day u div 10 < 10" "day u mod 10 < 10"
    "hours u div 10 < 10" "hours u mod 10 < 10" "minutes u div 10 < 10" "minutes u mod 10 < 10"
    "seconds u div 10 < 10" "seconds u mod 10 < 10"
  using assms by (auto simp: four_digit_date_def)

lemma compact_is_compact:
  assumes "four_digit_date u"
  shows "is_compact_timestamp (isoToCompactTimestamp (Valid_date u))"
  by (simp add: compact_of_date [OF assms] is_compact_timestamp_def
      digit_is_digit [OF date_digits(1) [OF assms]] digit_is_digit [OF date_digits(2) [OF assms]]
      digit_is_digit [OF date_digits(3) [OF assms]] digit_is_digit [OF date_digits(4) [OF assms]]
      digit_is_digit [OF date_digits(5) [OF assms]] digit_is_digit [OF date_digits(6) [OF assms]]
      digit_is_digit [OF date_digits(7) [OF assms]] digit_is_digit [OF date_digits(8) [OF assms]]
      digit_is_digit [OF date_digits(9) [OF assms]] digit_is_digit [OF date_digits(10) [OF assms]]
      digit_is_digit [OF date_digits(11) [OF assms]] digit_is_digit [OF date_digits(12) [OF assms]]
      digit_is_digit [OF date_digits(13) [OF assms]] digit_is_digit [OF date_digits(14) [OF assms]])

lemma compact_no_underscore:
  assumes "four_digit_date u"
  shows "CHR ''_'' \<notin> set (isoToCompactTimestamp (Valid_date u))"
  using digit_not_underscore [OF date_digits(1) [OF assms]] digit_not_underscore [OF date_digits(2) [OF assms]]
      digit_not_underscore [OF date_digits(3) [OF assms]] digit_not_underscore [OF date_digits(4) [OF assms]]
      digit_not_underscore [OF date_digits(5) [OF assms]] digit_not_underscore [OF date_digits(6) [OF assms]]
      digit_not_underscore [OF date_digits(7) [OF assms]] digit_not_underscore [OF date_digits(8) [OF assms]]
      digit_not_underscore [OF date_digits(9) [OF assms]] digit_not_underscore [OF date_digits(10) [OF assms]]
      digit_not_underscore [OF date_digits(11) [OF assms]] digit_not_underscore [OF date_digits(12) [OF assms]]
      digit_not_underscore [OF date_digits(13) [OF assms]] digit_not_underscore [OF date_digits(14) [OF assms]]
  by (simp add: compact_of_date [OF assms] eq_commute [of "CHR ''_''"])

lemma compact_trim:
  assumes "four_digit_date u"
  shows "trim (isoToCompactTimestamp (Valid_date u)) = isoToCompactTimestamp (Valid_date u)"
proof (rule trim_noop)
  show "isoToCompactTimestamp (Valid_date u) \<noteq> []"
    by (simp add: compact_of_date [OF assms])
  show "\<not> js_space (hd (isoToCompactTimestamp (Valid_date u)))"
    by (simp add: compact_of_date [OF assms] digit_not_space [OF date_digits(1) [OF assms]])
  show "\<not> js_space (last (isoToCompactTimestamp (Valid_date u)))"
    by (simp add: compact_of_date [OF assms] js_space_def)
qed

lemma compact_to_iso:
  assumes "four_digit_date u"
  shows "compactTimestampToIso (isoToCompactTimestamp (Valid_date u)) = iso_seconds u"
proof -
  have "compactTimestampToIso (isoToCompactTimestamp (Valid_date u)) =
      (let t = isoToCompactTimestamp (Valid_date u) in
       take 4 t @ ''-'' @ take 2 (drop 4 t) @ ''-'' @ take 2 (drop 6 t) @ ''T''
           @ take 2 (drop 9 t) @ '':'' @ take 2 (drop 11 t) @ '':'' @ take 2 (drop 13 t) @ ''Z'')"
    by (simp add: compactTimestampToIso_def compact_trim [OF assms] compact_is_compact [OF assms] Let_def)
  also have "\<dots> = iso_seconds u"
    by (simp add: compact_of_date [OF assms] iso_of_date [OF assms] Let_def)
  finally show ?thesis .
qed

lemma iso_seconds_nonempty: "iso_seconds u \<noteq> []"
  by (simp add: iso_seconds_def)

lemma retained_round_trip:
  assumes tag: "safe_pattern tag"
    and slug: "\<not> js_includes ''__'' (repoSlug repo)" "last (repoSlug repo) \<noteq> CHR ''_''"
    and date: "four_digit_date u"
  shows "parseRetainedContainerName (makeRetainedContainerName repo tag (Valid_date u)) =
    Some \<lparr>rn_tag = strip_dashes tag, rn_retainedAt = iso_seconds u\<rparr>"
proof -
  define ts where "ts = isoToCompactTimestamp (Valid_date u)"
  define tg where "tg = strip_dashes tag"
  define name where "name = ''a0-svc-retained'' @ ''__'' @ repoSlug repo @ ''__'' @ ts @ ''__'' @ tg"
  have ne: "tg \<noteq> []"
    unfolding tg_def by (rule strip_dashes_safe(2) [OF tag])
  have mk: "makeRetainedContainerName repo tag (Valid_date u) = name"
    by (simp add: makeRetainedContainerName_def sanitize_safe [OF tag] PREFIX_def name_def ts_def tg_def Let_def)
  have "is_name_char (last tg)"
    unfolding tg_def by (rule strip_dashes_safe(3) [OF tag])
  then have "\<not> js_space (last name)"
    using ne by (simp add: name_def name_char_not_space)
  then have tr: "trim name = name"
    by (intro trim_noop) (simp_all add: name_def js_space_def)
  have pre: "prefix (PREFIX @ ''-retained__'') name"
    by (simp add: name_def PREFIX_def)
  have s1: "split_dunder name = ''a0-svc-retained'' # split_dunder (repoSlug repo @ ''__'' @ ts @ ''__'' @ tg)"
    unfolding name_def by (rule no_underscore_segment) simp
  have s2: "split_dunder (repoSlug repo @ ''__'' @ ts @ ''__'' @ tg) = repoSlug repo # split_dunder (ts @ ''__'' @ tg)"
    by (rule split_dunder_segment) (simp_all add: slug)
  have s3: "split_dunder (ts @ ''__'' @ tg) = ts # split_dunder tg"
    unfolding ts_def by (rule no_underscore_segment) (rule compact_no_underscore [OF date])
  have sp: "split_dunder name = ''a0-svc-retained'' # repoSlug repo # ts # split_dunder tg"
    by (simp only: s1 s2 s3)
  have len: "\<not> length (split_dunder name) < 4"
    using split_dunder_nonempty [of tg] by (cases "split_dunder tg") (simp_all add: sp)
  have third: "split_dunder name ! 2 = ts"
    by (simp add: sp)
  have rest: "join_dunder (drop 3 (split_dunder name)) = tg"
    by (simp add: sp join_split_dunder)
  have iso: "compactTimestampToIso ts = iso_seconds u"
    unfolding ts_def by (rule compact_to_iso [OF date])
  show ?thesis
    unfolding mk parseRetainedContainerName_def tr Let_def tg_def [symmetric]
    using pre len ne iso_seconds_nonempty [of u] by (simp only: third rest iso if_True if_False not_True_eq_False not_not simp_thms)
qed

lemma parse_retained_cases:
  "parseRetainedContainerName name =
     (let n = trim name; parts = split_dunder n in
      if prefix ''a0-svc-retained__'' n \<and> 4 \<le> length parts \<and>
         is_compact_timestamp (trim (parts ! 2)) \<and> join_dunder (drop 3 parts) \<noteq> []
      then Some \<lparr>rn_tag = join_dunder (drop 3 parts), rn_retainedAt = compactTimestampToIso (parts ! 2)\<rparr>
      else None)"
  by (simp add: parseRetainedContainerName_def compactTimestampToIso_def PREFIX_def Let_def not_less)

lemma slug_default: "repoSlug ''agent0ai/agent-zero'' = ''agent0ai-agent-zero''"
  by (simp add: repoSlug_def sanitizeNamePart_def trim_def js_space_def is_printable_def
      is_name_char_def is_alnum_def is_upper_def is_lower_def is_digit_def strip_dashes_def Let_def)

lemma example_date_iso: "iso_seconds example_date = ''2024-03-09T07:05:00Z''"
  by (simp add: iso_seconds_def example_date_def string_of_int_def pad_def digit_def
      dec.simps [of 2024] dec.simps [of 202] dec.simps [of 20] dec.simps [of 2]
      dec.simps [of 3] dec.simps [of 9] dec.simps [of 7] dec.simps [of 5] dec.simps [of 0])

lemma example_date_four: "four_digit_date example_date"
  by (simp add: four_digit_date_def example_date_def)

text \<open>
  C9. For a tag that matches \<open>[A-Za-z0-9][A-Za-z0-9_.-]*\<close>, a repository whose slug holds no
  \<open>__\<close> and does not end in \<open>_\<close>, and a valid date with a year of four digits, parsing the
  retained name made from them gives the tag without its trailing dashes and the date cut to
  whole seconds, as \<open>YYYY-MM-DDTHH:MM:SSZ\<close>; so the tag itself when it does not end in a dash.
  A name parses exactly when, trimmed, it starts with \<open>a0-svc-retained__\<close>, has at least four
  segments between \<open>__\<close>, its third segment, trimmed, matches \<open>\d{8}T\d{6}Z\<close> and the
  segments from the fourth on, joined by \<open>__\<close>, are not empty; every other name gives null.
\<close>

theorem retained_name_round_trip:
  "(safe_pattern tag \<and> \<not> js_includes ''__'' (repoSlug repo) \<and> last (repoSlug repo) \<noteq> CHR ''_'' \<and>
    four_digit_date u \<longrightarrow>
      parseRetainedContainerName (makeRetainedContainerName repo tag (Valid_date u)) =
        Some \<lparr>rn_tag = rev (dropWhile (\<lambda>c. c = CHR ''-'') (rev tag)), rn_retainedAt = iso_seconds u\<rparr> \<and>
      (last tag \<noteq> CHR ''-'' \<longrightarrow>
         parseRetainedContainerName (makeRetainedContainerName repo tag (Valid_date u)) =
           Some \<lparr>rn_tag = tag, rn_retainedAt = iso_seconds u\<rparr>)) \<and>
   makeRetainedContainerName repo tag d =
     ''a0-svc-retained__'' @ repoSlug repo @ ''__'' @ isoToCompactTimestamp d @ ''__'' @ sanitizeNamePart tag \<and>
   parseRetainedContainerName name =
     (let n = trim name; parts = split_dunder n in
      if prefix ''a0-svc-retained__'' n \<and> 4 \<le> length parts \<and>
         is_compact_timestamp (trim (parts ! 2)) \<and> join_dunder (drop 3 parts) \<noteq> []
      then Some \<lparr>rn_tag = join_dunder (drop 3 parts), rn_retainedAt = compactTimestampToIso (parts ! 2)\<rparr>
      else None)"
proof (intro conjI impI)
  assume h: "safe_pattern tag \<and> \<not> js_includes ''__'' (repoSlug repo) \<and> last (repoSlug repo) \<noteq> CHR ''_'' \<and>
    four_digit_date u"
  then have rt: "parseRetainedContainerName (makeRetainedContainerName repo tag (Valid_date u)) =
      Some \<lparr>rn_tag = strip_dashes tag, rn_retainedAt = iso_seconds u\<rparr>"
    by (intro retained_round_trip) simp_all
  show "parseRetainedContainerName (makeRetainedContainerName repo tag (Valid_date u)) =
        Some \<lparr>rn_tag = rev (dropWhile (\<lambda>c. c = CHR ''-'') (rev tag)), rn_retainedAt = iso_seconds u\<rparr>"
    using rt h by (simp add: strip_dashes_safe(1))
  assume "last tag \<noteq> CHR ''-''"
  then show "parseRetainedContainerName (makeRetainedContainerName repo tag (Valid_date u)) =
           Some \<lparr>rn_tag = tag, rn_retainedAt = iso_seconds u\<rparr>"
    using rt h by (simp add: strip_dashes_plain)
next
  show "makeRetainedContainerName repo tag d =
     ''a0-svc-retained__'' @ repoSlug repo @ ''__'' @ isoToCompactTimestamp d @ ''__'' @ sanitizeNamePart tag"
    by (simp add: makeRetainedContainerName_def PREFIX_def Let_def)
next
  show "parseRetainedContainerName name =
     (let n = trim name; parts = split_dunder n in
      if prefix ''a0-svc-retained__'' n \<and> 4 \<le> length parts \<and>
         is_compact_timestamp (trim (parts ! 2)) \<and> join_dunder (drop 3 parts) \<noteq> []
      then Some \<lparr>rn_tag = join_dunder (drop 3 parts), rn_retainedAt = compactTimestampToIso (parts ! 2)\<rparr>
      else None)"
    by (rule parse_retained_cases)
qed

theorem retained_name_round_trip_witness:
  "safe_pattern ''v1.2.0'' \<and> \<not> js_includes ''__'' (repoSlug ''agent0ai/agent-zero'') \<and>
   last (repoSlug ''agent0ai/agent-zero'') \<noteq> CHR ''_'' \<and> four_digit_date example_date \<and>
   last ''v1.2.0'' \<noteq> CHR ''-'' \<and>
   makeRetainedContainerName ''agent0ai/agent-zero'' ''v1.2.0'' (Valid_date example_date) =
     ''a0-svc-retained__agent0ai-agent-zero__20240309T070500Z__v1.2.0'' \<and>
   parseRetainedContainerName ''a0-svc-retained__agent0ai-agent-zero__20240309T070500Z__v1.2.0'' =
     Some \<lparr>rn_tag = ''v1.2.0'', rn_retainedAt = ''2024-03-09T07:05:00Z''\<rparr> \<and>
   parseRetainedContainerName ''a0-svc-active__agent0ai-agent-zero'' = None \<and>
   parseRetainedContainerName ''a0-svc-retained__agent0ai-agent-zero__2024-03-09__v1.2.0'' = None \<and>
   parseRetainedContainerName ''a0-svc-retained__agent0ai-agent-zero__20240309T070500Z__'' = None"
proof -
  have a: "safe_pattern ''v1.2.0''"
    by (simp add: safe_pattern_def is_alnum_def is_name_char_def is_upper_def is_lower_def is_digit_def)
  have b: "\<not> js_includes ''__'' (repoSlug ''agent0ai/agent-zero'')" "last (repoSlug ''agent0ai/agent-zero'') \<noteq> CHR ''_''"
    by (simp_all add: slug_default)
  note rt = retained_name_round_trip [of "''v1.2.0''" "''agent0ai/agent-zero''" example_date "Valid_date example_date"]
  have mk: "makeRetainedContainerName ''agent0ai/agent-zero'' ''v1.2.0'' (Valid_date example_date) =
     ''a0-svc-retained__agent0ai-agent-zero__20240309T070500Z__v1.2.0''"
    using rt [of "[]", THEN conjunct2, THEN conjunct1] a
    by (simp add: slug_default sanitize_safe strip_dashes_def isoToCompactTimestamp_def example_date_def
        string_of_int_def pad_def digit_def
        dec.simps [of 2024] dec.simps [of 202] dec.simps [of 20] dec.simps [of 2]
        dec.simps [of 3] dec.simps [of 9] dec.simps [of 7] dec.simps [of 5] dec.simps [of 0])
  have p: "parseRetainedContainerName ''a0-svc-retained__agent0ai-agent-zero__20240309T070500Z__v1.2.0'' =
     Some \<lparr>rn_tag = ''v1.2.0'', rn_retainedAt = ''2024-03-09T07:05:00Z''\<rparr>"
    using rt [of "[]", THEN conjunct1] a b example_date_four by (simp add: mk example_date_iso)
  have n1: "parseRetainedContainerName ''a0-svc-active__agent0ai-agent-zero'' = None"
    using retained_name_round_trip [of "[]" "[]" example_date Invalid_date "''a0-svc-active__agent0ai-agent-zero''",
        THEN conjunct2, THEN conjunct2]
    by (simp add: trim_def js_space_def Let_def)
  have n2: "parseRetainedContainerName ''a0-svc-retained__agent0ai-agent-zero__2024-03-09__v1.2.0'' = None"
    using retained_name_round_trip [of "[]" "[]" example_date Invalid_date
        "''a0-svc-retained__agent0ai-agent-zero__2024-03-09__v1.2.0''", THEN conjunct2, THEN conjunct2]
    by (simp add: trim_def js_space_def Let_def is_compact_timestamp_def)
  have n3: "parseRetainedContainerName ''a0-svc-retained__agent0ai-agent-zero__20240309T070500Z__'' = None"
    using retained_name_round_trip [of "[]" "[]" example_date Invalid_date
        "''a0-svc-retained__agent0ai-agent-zero__20240309T070500Z__''", THEN conjunct2, THEN conjunct2]
    by (simp add: trim_def js_space_def Let_def)
  show ?thesis
    using a b example_date_four mk p n1 n2 n3 by simp
qed

theorem retained_name_round_trip_counterexample:
  "safe_pattern ''a-'' \<and>
   parseRetainedContainerName
     (makeRetainedContainerName ''agent0ai/agent-zero'' ''a-'' (Valid_date example_date)) =
     Some \<lparr>rn_tag = ''a'', rn_retainedAt = ''2024-03-09T07:05:00Z''\<rparr>"
proof -
  have a: "safe_pattern ''a-''"
    by (simp add: safe_pattern_def is_alnum_def is_name_char_def is_upper_def is_lower_def is_digit_def)
  have "parseRetainedContainerName
     (makeRetainedContainerName ''agent0ai/agent-zero'' ''a-'' (Valid_date example_date)) =
     Some \<lparr>rn_tag = strip_dashes ''a-'', rn_retainedAt = iso_seconds example_date\<rparr>"
    by (rule retained_round_trip [OF a _ _ example_date_four]) (simp_all add: slug_default)
  then show ?thesis
    using a by (simp add: example_date_iso strip_dashes_def)
qed


end
